theory Spec2Isabelle
  imports Complex_Main "HOL-Library.Word" "HOL-Library.Monad_Syntax"
begin

section \<open>Numbers and containers\<close>

text \<open>
  The two source files are \<^verbatim>\<open>smart_capture_calculator.cc\<close> (the calculator) and
  \<^verbatim>\<open>smart_face_main_wasm.cc\<close> (the WASM processor).

  A finite C++ \<^verbatim>\<open>float\<close> is modelled by the real number it denotes; NaN, infinities
  and signed zeros are not modelled. In the pose estimators the arithmetic on floats is
  exact. In the cropper, whose rectangle depends on the rounding, every float operation
  is rounded to binary32 (\<open>to_float\<close> below). The capture counters are C++ \<^verbatim>\<open>int\<close>,
  modelled as 32-bit words read as two's complement; the pixel coordinates of the
  cropper are C++ \<^verbatim>\<open>int\<close>, modelled as integers with the range of \<^verbatim>\<open>int\<close> checked at
  every conversion and subtraction.

  A read outside a container (protobuf's \<^verbatim>\<open>landmark(i)\<close>, \<^verbatim>\<open>std::vector::operator[]\<close>)
  is undefined behaviour in the source. In the model it is the value \<open>None\<close>, and every
  function that performs such reads returns an option.
\<close>

type_synonym int32 = "32 word"

record Landmark =
  x :: real
  y :: real
  z :: real

definition Landmark0 :: Landmark where
  \<comment> \<open>the default constructor \<^verbatim>\<open>Landmark() : x(0), y(0), z(0)\<close>\<close>
  "Landmark0 = \<lparr>x = 0, y = 0, z = 0\<rparr>"

definition landmark :: "Landmark list \<Rightarrow> int \<Rightarrow> Landmark option" where
  \<comment> \<open>\<^verbatim>\<open>landmarks.landmark(i)\<close> and \<^verbatim>\<open>landmarks[i]\<close>: no bounds check in the source\<close>
  "landmark lms i = (if 0 \<le> i \<and> i < int (length lms) then Some (lms ! nat i) else None)"

definition int_of_float :: "real \<Rightarrow> int" where
  \<comment> \<open>the conversion float to int of C++: the fractional part is discarded (a value
      outside the range of \<^verbatim>\<open>int\<close> is undefined there: \<open>int_of_float32\<close> below)\<close>
  "int_of_float r = (if 0 \<le> r then \<lfloor>r\<rfloor> else \<lceil>r\<rceil>)"

definition int_div :: "int \<Rightarrow> int \<Rightarrow> int" where
  \<comment> \<open>the integer division of C++: the quotient is truncated towards zero\<close>
  "int_div a b = sgn a * sgn b * (\<bar>a\<bar> div \<bar>b\<bar>)"

text \<open>
  Binary32 (IEEE 754 single precision, the \<^verbatim>\<open>float\<close> of the source), rounding to nearest
  with ties to even. The binary32 numbers around \<open>r\<close> are the multiples of \<open>ulp r\<close>: the
  smallest power of two \<open>u \<ge> 1 / 2 ^ 149\<close> with \<open>\<bar>r\<bar> < 2 ^ 24 * u\<close> (24 bits of significand,
  subnormal numbers at the bottom), found by doubling. \<open>round32 r\<close> is the multiple of
  \<open>ulp r\<close> nearest to \<open>r\<close>. A result of magnitude \<open>2 ^ 128\<close> or more is an infinity in the
  source; \<open>to_float\<close> gives \<open>None\<close> for it. Each operation is rounded on its own (no fused
  multiply-add, no extended precision).
\<close>

primrec ulp_search :: "nat \<Rightarrow> real \<Rightarrow> real \<Rightarrow> real" where
  "ulp_search 0 u a = u"
| "ulp_search (Suc n) u a = (if a < 2 ^ 24 * u then u else ulp_search n (2 * u) a)"

definition ulp :: "real \<Rightarrow> real" where
  "ulp r = ulp_search 253 (1 / 2 ^ 149) \<bar>r\<bar>"

definition round_even :: "real \<Rightarrow> int" where
  \<comment> \<open>the nearest integer, the even one of the two when \<open>q\<close> is half way\<close>
  "round_even q =
     (let f = \<lfloor>q\<rfloor>; d = q - of_int f
      in if d < 1 / 2 then f else if 1 / 2 < d then f + 1 else if even f then f else f + 1)"

definition round32 :: "real \<Rightarrow> real" where
  "round32 r = (let u = ulp r in of_int (round_even (r / u)) * u)"

definition to_float :: "real \<Rightarrow> real option" where
  "to_float r = (let v = round32 r in if \<bar>v\<bar> < 2 ^ 128 then Some v else None)"

definition fadd :: "real \<Rightarrow> real \<Rightarrow> real option" where
  "fadd a b = to_float (a + b)"

definition fsub :: "real \<Rightarrow> real \<Rightarrow> real option" where
  "fsub a b = to_float (a - b)"

definition fmul :: "real \<Rightarrow> real \<Rightarrow> real option" where
  "fmul a b = to_float (a * b)"

definition float_of_int :: "int \<Rightarrow> real option" where
  \<comment> \<open>the conversion int to float\<close>
  "float_of_int n = to_float (of_int n)"

definition int_of_float32 :: "real \<Rightarrow> int option" where
  \<comment> \<open>the conversion float to int: the fractional part is discarded; the behaviour is
      undefined when the result is not in the range of \<^verbatim>\<open>int\<close>\<close>
  "int_of_float32 r =
     (let t = int_of_float r in if - (2 ^ 31) \<le> t \<and> t < 2 ^ 31 then Some t else None)"

definition int_sub :: "int \<Rightarrow> int \<Rightarrow> int option" where
  \<comment> \<open>\<^verbatim>\<open>a - b\<close> on \<^verbatim>\<open>int\<close>: signed overflow is undefined\<close>
  "int_sub a b = (if - (2 ^ 31) \<le> a - b \<and> a - b < 2 ^ 31 then Some (a - b) else None)"

definition atan2 :: "real \<Rightarrow> real \<Rightarrow> real" where
  \<comment> \<open>\<^verbatim>\<open>std::atan2(y, x)\<close> of the C library, on finite arguments\<close>
  "atan2 b a =
     (if 0 < a then arctan (b / a)
      else if a < 0 then (if 0 \<le> b then arctan (b / a) + pi else arctan (b / a) - pi)
      else if 0 < b then pi / 2
      else if b < 0 then - (pi / 2)
      else 0)"

fun digits :: "nat \<Rightarrow> string" where
  "digits n = (if n < 10 then [char_of (48 + n)] else digits (n div 10) @ [char_of (48 + n mod 10)])"

definition to_string :: "int \<Rightarrow> string" where
  \<comment> \<open>\<^verbatim>\<open>std::to_string(int)\<close>\<close>
  "to_string i = (if i < 0 then CHR ''-'' # digits (nat (- i)) else digits (nat i))"


section \<open>The calculator (smart\_capture\_calculator.cc)\<close>

definition ToDegrees :: "real \<Rightarrow> real" where
  "ToDegrees radians = radians * 180 / pi"

text \<open>The options message is read through four accessors; its fields have the types of
  the members \<^verbatim>\<open>Open\<close> assigns them to.\<close>

record SmartCaptureCalculatorOptions =
  opt_max_captures :: int32
  opt_max_yaw_degrees :: real
  opt_max_pitch_degrees :: real
  opt_padding :: real

record SmartCaptureCalculator =
  calc_max_captures :: int32
  calc_max_yaw :: real
  calc_max_pitch :: real
  calc_padding :: real
  current_count :: int32

text \<open>An image frame is its width (\<^verbatim>\<open>src.cols\<close>) and height (\<^verbatim>\<open>src.rows\<close>); the pixels
  play no part in any decision. A rectangle is \<^verbatim>\<open>cv::Rect(x, y, width, height)\<close>.\<close>

record ImageFrame =
  cols :: int
  rows :: int

type_synonym Rect = "int \<times> int \<times> int \<times> int"

text \<open>The calculator context of one \<^verbatim>\<open>Process\<close> call: the two input packets (empty or
  not), and whether the optional output stream STATUS is connected. The outputs of the
  call are the packets it added to STATUS and to CROPPED\_FACE.\<close>

record CalculatorContext =
  IMAGE :: "ImageFrame option"
  LANDMARKS :: "Landmark list list option"
  HasTag_STATUS :: bool

record Outputs =
  STATUS :: "string list"
  CROPPED_FACE :: "Rect list"

definition no_output :: Outputs where
  "no_output = \<lparr>STATUS = [], CROPPED_FACE = []\<rparr>"

definition Open :: "SmartCaptureCalculatorOptions \<Rightarrow> SmartCaptureCalculator" where
  "Open options =
     \<lparr>calc_max_captures = opt_max_captures options,
      calc_max_yaw = opt_max_yaw_degrees options,
      calc_max_pitch = opt_max_pitch_degrees options,
      calc_padding = opt_padding options,
      current_count = 0\<rparr>"

definition SendStatus :: "CalculatorContext \<Rightarrow> string \<Rightarrow> Outputs \<Rightarrow> Outputs" where
  "SendStatus cc message out =
     (if HasTag_STATUS cc then out\<lparr>STATUS := STATUS out @ [message]\<rparr> else out)"

text \<open>The loop of \<^verbatim>\<open>CropAndSend\<close> over the landmarks, on the four running values
  \<open>(min_x, max_x, min_y, max_y)\<close>.\<close>

fun min_max_loop :: "Landmark list \<Rightarrow> real \<times> real \<times> real \<times> real \<Rightarrow> real \<times> real \<times> real \<times> real" where
  "min_max_loop [] acc = acc"
| "min_max_loop (lm # lms) (min_x, max_x, min_y, max_y) =
     min_max_loop lms (min min_x (x lm), max max_x (x lm), min min_y (y lm), max max_y (y lm))"

text \<open>Lines 100 to 116 of \<^verbatim>\<open>CropAndSend\<close>: the rectangle it extracts. The value is
  \<open>Some (Some roi)\<close> when it extracts \<open>roi\<close>, \<open>Some None\<close> when it adds no packet, and \<open>None\<close>
  when the source has no defined behaviour: a float that is converted to \<^verbatim>\<open>int\<close> is not
  finite or is outside the range of \<^verbatim>\<open>int\<close>, or a subtraction on \<^verbatim>\<open>int\<close> overflows. Every
  float of these lines is converted to \<^verbatim>\<open>int\<close>, directly or after further operations, so
  an infinity always reaches such a conversion.\<close>

definition crop_rect :: "real \<Rightarrow> ImageFrame \<Rightarrow> Landmark list \<Rightarrow> Rect option option" where
  "crop_rect padding input_img landmarks = do {
     let img_w = cols input_img; let img_h = rows input_img;
     let (min_x, max_x, min_y, max_y) = min_max_loop landmarks (1, 0, 1, 0);
     img_wf \<leftarrow> float_of_int img_w;
     img_hf \<leftarrow> float_of_int img_h;
     dx \<leftarrow> fsub max_x min_x; fw \<leftarrow> fmul dx img_wf; w \<leftarrow> int_of_float32 fw;
     dy \<leftarrow> fsub max_y min_y; fh \<leftarrow> fmul dy img_hf; h \<leftarrow> int_of_float32 fh;
     left \<leftarrow> fmul min_x img_wf; half_w \<leftarrow> float_of_int (int_div w 2);
     cxf \<leftarrow> fadd left half_w; cx \<leftarrow> int_of_float32 cxf;
     top \<leftarrow> fmul min_y img_hf; half_h \<leftarrow> float_of_int (int_div h 2);
     cyf \<leftarrow> fadd top half_h; cy \<leftarrow> int_of_float32 cyf;
     scale \<leftarrow> fadd 1 padding;
     w_f \<leftarrow> float_of_int w; pad_wf \<leftarrow> fmul w_f scale; pad_w \<leftarrow> int_of_float32 pad_wf;
     h_f \<leftarrow> float_of_int h; pad_hf \<leftarrow> fmul h_f scale; pad_h \<leftarrow> int_of_float32 pad_hf;
     x0 \<leftarrow> int_sub cx (int_div pad_w 2);
     y0 \<leftarrow> int_sub cy (int_div pad_h 2);
     let x1 = max 0 x0; let y1 = max 0 y0;
     room_w \<leftarrow> int_sub img_w x1;
     room_h \<leftarrow> int_sub img_h y1;
     let pad_w1 = min pad_w room_w; let pad_h1 = min pad_h room_h;
     Some (if pad_w1 > 0 \<and> pad_h1 > 0 then Some (x1, y1, pad_w1, pad_h1) else None)
   }"

text \<open>\<^verbatim>\<open>CropAndSend\<close> adds the extracted rectangle to CROPPED\_FACE. Where \<open>crop_rect\<close> is
  \<open>None\<close> the source has no defined behaviour; \<open>CropAndSend\<close> is given the value \<open>out\<close>
  there, and what is proved of the rectangle is proved of \<open>crop_rect\<close>.\<close>

definition CropAndSend :: "SmartCaptureCalculator \<Rightarrow> ImageFrame \<Rightarrow> Landmark list \<Rightarrow> Outputs \<Rightarrow> Outputs" where
  "CropAndSend self input_img landmarks out =
     (case crop_rect (calc_padding self) input_img landmarks of
        Some (Some roi) \<Rightarrow> out\<lparr>CROPPED_FACE := CROPPED_FACE out @ [roi]\<rparr>
      | _ \<Rightarrow> out)"

text \<open>Lines 61 to 70 of \<^verbatim>\<open>Process\<close>: the three landmark reads and the two angles.\<close>

definition PoseAngles :: "Landmark list \<Rightarrow> (real \<times> real) option" where
  "PoseAngles landmarks = do {
     nose \<leftarrow> landmark landmarks 1;
     left_ear \<leftarrow> landmark landmarks 234;
     right_ear \<leftarrow> landmark landmarks 454;
     let yaw = ToDegrees (atan2 (z left_ear - z right_ear) (x left_ear - x right_ear));
     let ear_mid_y = (y left_ear + y right_ear) / 2;
     let pitch = ToDegrees (atan2 (y nose - ear_mid_y) (z nose));
     Some (yaw, pitch)
   }"

definition Process :: "SmartCaptureCalculator \<Rightarrow> CalculatorContext \<Rightarrow> (SmartCaptureCalculator \<times> Outputs) option" where
  "Process self cc =
     (if calc_max_captures self \<le>s current_count self then Some (self, no_output)
      else case (IMAGE cc, LANDMARKS cc) of
        (Some input_img, Some multi_landmarks) \<Rightarrow>
          if multi_landmarks = [] then Some (self, SendStatus cc ''No face detected'' no_output)
          else do {
            let landmarks = multi_landmarks ! 0;
            (yaw, pitch) \<leftarrow> PoseAngles landmarks;
            if \<bar>yaw\<bar> > calc_max_yaw self
            then Some (self, SendStatus cc ''Face turned too much (Yaw)'' no_output)
            else if \<bar>pitch\<bar> > calc_max_pitch self * 2
            then Some (self, SendStatus cc ''Face tilted up/down too much (Pitch)'' no_output)
            else Some (self\<lparr>current_count := current_count self + 1\<rparr>,
                       CropAndSend self input_img landmarks (SendStatus cc ''Captured!'' no_output))
          }
      | _ \<Rightarrow> Some (self, no_output))"

text \<open>A frame the quality gate of the calculator accepts: both packets are present, the
  landmark vector is not empty, and neither angle check rejects.\<close>

definition calc_gate_accepts :: "SmartCaptureCalculator \<Rightarrow> CalculatorContext \<Rightarrow> bool" where
  "calc_gate_accepts self cc =
     (case (IMAGE cc, LANDMARKS cc) of
        (Some input_img, Some (lms # rest)) \<Rightarrow>
          (case PoseAngles lms of
             Some (yaw, pitch) \<Rightarrow> \<bar>yaw\<bar> \<le> calc_max_yaw self \<and> \<bar>pitch\<bar> \<le> calc_max_pitch self * 2
           | None \<Rightarrow> False)
      | _ \<Rightarrow> False)"


section \<open>The quality gate and the estimators as the specification words them\<close>

text \<open>The gate of the specification: the no-face check first, then the magnitude of the yaw
  against \<open>max_yaw_degrees\<close>, then the magnitude of the pitch against the effective
  threshold \<open>max_pitch_degrees * multiplier\<close>. The pose is \<open>None\<close> when there is no face.\<close>

datatype GateOutcome = Accept | RejectYaw | RejectPitch | RejectNoFace

definition QualityGate :: "real \<Rightarrow> real \<Rightarrow> real \<Rightarrow> (real \<times> real) option \<Rightarrow> GateOutcome" where
  "QualityGate multiplier max_yaw_degrees max_pitch_degrees pose =
     (case pose of
        None \<Rightarrow> RejectNoFace
      | Some (yaw, pitch) \<Rightarrow>
          if \<bar>yaw\<bar> > max_yaw_degrees then RejectYaw
          else if \<bar>pitch\<bar> > max_pitch_degrees * multiplier then RejectPitch
          else Accept)"

fun reason :: "GateOutcome \<Rightarrow> string" where
  "reason RejectNoFace = ''No face detected''"
| "reason RejectYaw = ''Face turned too much (Yaw)''"
| "reason RejectPitch = ''Face tilted up/down too much (Pitch)''"
| "reason Accept = ''Captured!''"

text \<open>The depth-based estimator: ear landmarks 234 and 454, nose landmark 1.\<close>

definition depth_yaw :: "Landmark list \<Rightarrow> real" where
  "depth_yaw lms =
     (let leftEar = lms ! 234; rightEar = lms ! 454
      in atan2 (z leftEar - z rightEar) (x leftEar - x rightEar) * (180 / pi))"

definition depth_pitch :: "Landmark list \<Rightarrow> real" where
  "depth_pitch lms =
     (let nose = lms ! 1; earMidY = (y (lms ! 234) + y (lms ! 454)) / 2
      in atan2 (y nose - earMidY) (z nose) * (180 / pi))"

text \<open>The ratio-based estimator: nose 1, eye outer corners 33 and 263, forehead 10, nose
  bridge 168, chin 152; \<open>\<epsilon> = 0.001\<close>.\<close>

definition ratio_yaw :: "Landmark list \<Rightarrow> real" where
  "ratio_yaw lms =
     (let leftDist = \<bar>x (lms ! 1) - x (lms ! 33)\<bar>; rightDist = \<bar>x (lms ! 263) - x (lms ! 1)\<bar>
      in ((leftDist - rightDist) / (leftDist + rightDist + 0.001)) * 45)"

definition ratio_pitch :: "Landmark list \<Rightarrow> real" where
  "ratio_pitch lms =
     (let upperDist = \<bar>y (lms ! 10) - y (lms ! 168)\<bar>; lowerDist = \<bar>y (lms ! 152) - y (lms ! 168)\<bar>
      in ((upperDist - lowerDist) / (upperDist + lowerDist + 0.001)) * 30)"

definition eye_roll :: "Landmark list \<Rightarrow> real" where
  "eye_roll lms =
     atan2 (y (lms ! 263) - y (lms ! 33)) (x (lms ! 263) - x (lms ! 33)) * (180 / pi)"

text \<open>The region cropper as the specification words it, on the floats of its data
  model (each operation rounded to binary32) and on integers without a range. Step 1:
  the smallest and the largest \<open>x\<close> and \<open>y\<close> over all landmarks. Steps 2 to 5, \<open>PixelBox\<close>:
  the pixel box \<open>w = (max_x - min_x) * imgW\<close>, \<open>h = (max_y - min_y) * imgH\<close> and its centre,
  box minimum plus half extents, all truncated to integers; the padded extents
  \<open>w * (1 + padding)\<close>, \<open>h * (1 + padding)\<close> and the top-left corner, centre minus half of
  the padded extents; the corner clamped to \<open>\<ge> (0, 0)\<close> and the extents to
  \<open>min padW (imgW - x)\<close>, \<open>min padH (imgH - y)\<close>; a rectangle only when both extents are
  positive.\<close>

definition PixelBox :: "real \<Rightarrow> int \<Rightarrow> int \<Rightarrow> real \<times> real \<times> real \<times> real \<Rightarrow> Rect option" where
  "PixelBox padding imgW imgH box =
     (case box of (min_x, max_x, min_y, max_y) \<Rightarrow>
      let w = int_of_float (round32 (round32 (max_x - min_x) * round32 (of_int imgW)));
          h = int_of_float (round32 (round32 (max_y - min_y) * round32 (of_int imgH)));
          cx = int_of_float (round32 (round32 (min_x * round32 (of_int imgW)) + round32 (of_int (int_div w 2))));
          cy = int_of_float (round32 (round32 (min_y * round32 (of_int imgH)) + round32 (of_int (int_div h 2))));
          padW = int_of_float (round32 (round32 (of_int w) * round32 (1 + padding)));
          padH = int_of_float (round32 (round32 (of_int h) * round32 (1 + padding)));
          left = max 0 (cx - int_div padW 2);
          top = max 0 (cy - int_div padH 2);
          padW' = min padW (imgW - left);
          padH' = min padH (imgH - top)
      in if padW' > 0 \<and> padH' > 0 then Some (left, top, padW', padH') else None)"

definition RegionCropper :: "real \<Rightarrow> int \<Rightarrow> int \<Rightarrow> Landmark list \<Rightarrow> Rect option" where
  "RegionCropper padding imgW imgH lms =
     PixelBox padding imgW imgH
       (Min (x ` set lms), Max (x ` set lms), Min (y ` set lms), Max (y ` set lms))"


section \<open>The WASM processor (smart\_face\_main\_wasm.cc)\<close>

definition EstimateYaw :: "Landmark list \<Rightarrow> real option" where
  "EstimateYaw landmarks =
     (if length landmarks < 468 then Some 0
      else do {
        left_eye \<leftarrow> landmark landmarks 33;
        right_eye \<leftarrow> landmark landmarks 263;
        nose \<leftarrow> landmark landmarks 1;
        let left_dist = \<bar>x nose - x left_eye\<bar>;
        let right_dist = \<bar>x right_eye - x nose\<bar>;
        let ratio = (left_dist - right_dist) / (left_dist + right_dist + 0.001);
        Some (ratio * 45)
      })"

definition EstimatePitch :: "Landmark list \<Rightarrow> real option" where
  "EstimatePitch landmarks =
     (if length landmarks < 468 then Some 0
      else do {
        nose_bridge \<leftarrow> landmark landmarks 168;
        chin \<leftarrow> landmark landmarks 152;
        forehead \<leftarrow> landmark landmarks 10;
        let upper = \<bar>y forehead - y nose_bridge\<bar>;
        let lower = \<bar>y chin - y nose_bridge\<bar>;
        let ratio = (upper - lower) / (upper + lower + 0.001);
        Some (ratio * 30)
      })"

definition EstimateRoll :: "Landmark list \<Rightarrow> real option" where
  "EstimateRoll landmarks =
     (if length landmarks < 468 then Some 0
      else do {
        left_eye \<leftarrow> landmark landmarks 33;
        right_eye \<leftarrow> landmark landmarks 263;
        let dx = x right_eye - x left_eye;
        let dy = y right_eye - y left_eye;
        Some (atan2 dy dx * 180 / pi)
      })"

record FaceResult =
  detected :: bool
  landmark_count :: int
  message :: string
  yaw :: real
  pitch :: real
  roll :: real
  quality_good :: bool
  landmarks :: "Landmark list"

definition FaceResult7 :: "bool \<Rightarrow> int \<Rightarrow> string \<Rightarrow> real \<Rightarrow> real \<Rightarrow> real \<Rightarrow> bool \<Rightarrow> FaceResult" where
  \<comment> \<open>the seven-argument constructor; it leaves \<^verbatim>\<open>landmarks\<close> empty\<close>
  "FaceResult7 det count msg y0 p0 r0 quality =
     \<lparr>detected = det, landmark_count = count, message = msg,
      yaw = y0, pitch = p0, roll = r0, quality_good = quality, landmarks = []\<rparr>"

record SmartFaceProcessor =
  initialized :: bool
  max_yaw :: real
  max_pitch :: real
  capture_count :: int32
  max_captures :: int32
  last_landmarks :: "Landmark list"

definition SmartFaceProcessor0 :: SmartFaceProcessor where
  \<comment> \<open>the constructor\<close>
  "SmartFaceProcessor0 =
     \<lparr>initialized = False, max_yaw = 15, max_pitch = 15,
      capture_count = 0, max_captures = 5, last_landmarks = []\<rparr>"

definition initialize :: "SmartFaceProcessor \<Rightarrow> bool \<times> SmartFaceProcessor" where
  "initialize self = (True, self\<lparr>initialized := True, capture_count := 0\<rparr>)"

definition setMaxYaw :: "SmartFaceProcessor \<Rightarrow> real \<Rightarrow> SmartFaceProcessor" where
  "setMaxYaw self degrees = self\<lparr>max_yaw := degrees\<rparr>"

definition setMaxPitch :: "SmartFaceProcessor \<Rightarrow> real \<Rightarrow> SmartFaceProcessor" where
  "setMaxPitch self degrees = self\<lparr>max_pitch := degrees\<rparr>"

definition setMaxCaptures :: "SmartFaceProcessor \<Rightarrow> int32 \<Rightarrow> SmartFaceProcessor" where
  "setMaxCaptures self count = self\<lparr>max_captures := count\<rparr>"

definition getCaptureCount :: "SmartFaceProcessor \<Rightarrow> int32" where
  "getCaptureCount self = capture_count self"

definition resetCaptures :: "SmartFaceProcessor \<Rightarrow> SmartFaceProcessor" where
  "resetCaptures self = self\<lparr>capture_count := 0\<rparr>"

text \<open>The image data is a JavaScript value (\<^verbatim>\<open>emscripten::val\<close>); the code never reads it.\<close>

typedecl val

text \<open>The placeholder landmark generator. The landmark of index \<open>i\<close> of the loop is
  \<open>simulated_landmark width height i\<close>. The generator runs only for \<open>width \<ge> 320\<close> and
  \<open>height \<ge> 240\<close>, where \<^verbatim>\<open>width % 30\<close> is \<open>width mod 30\<close> and \<^verbatim>\<open>height % 20\<close> is
  \<open>height mod 20\<close>.\<close>

definition simulated_landmark :: "int \<Rightarrow> int \<Rightarrow> nat \<Rightarrow> Landmark" where
  "simulated_landmark width height i =
     (let center_x = 0.5; center_y = 0.5; face_width = 0.3; face_height = 0.4;
          yaw_offset = (real_of_int (width mod 30) - 15) / 1000;
          pitch_offset = (real_of_int (height mod 20) - 10) / 1000;
          angle = (real i * 2 * pi) / 468;
          radius = (if i < 234 then face_width else face_width * 0.8)
      in \<lparr>x = center_x + radius * cos angle + yaw_offset,
          y = center_y + face_height * sin angle + pitch_offset,
          z = - 0.05 + real (i mod 10) * 0.001\<rparr>)"

definition processImageData :: "SmartFaceProcessor \<Rightarrow> int \<Rightarrow> int \<Rightarrow> val \<Rightarrow> Landmark list \<times> SmartFaceProcessor" where
  "processImageData self width height imageData =
     (let lms = (if width \<ge> 320 \<and> height \<ge> 240
                 then map (simulated_landmark width height) [0..<468] else [])
      in (lms, self\<lparr>last_landmarks := lms\<rparr>))"

definition degree_sign :: string where
  \<comment> \<open>the three bytes the source file has between the number and the closing parenthesis\<close>
  "degree_sign = [CHR 0xEC, CHR 0xA7, CHR 0xB8]"

definition detectFace :: "SmartFaceProcessor \<Rightarrow> int \<Rightarrow> int \<Rightarrow> val \<Rightarrow> (FaceResult \<times> SmartFaceProcessor) option" where
  "detectFace self width height imageData =
     (if \<not> initialized self
      then Some (FaceResult7 False 0 ''Error: Not initialized'' 0 0 0 False, self)
      else if width < 100 \<or> height < 100
      then Some (FaceResult7 False 0 ''Image too small'' 0 0 0 False, self)
      else let (lms, self1) = processImageData self width height imageData in
        if lms = [] \<or> length lms < 468
        then Some (FaceResult7 False 0 ''No face detected'' 0 0 0 False, self1)
        else do {
          yaw \<leftarrow> EstimateYaw lms;
          pitch \<leftarrow> EstimatePitch lms;
          roll \<leftarrow> EstimateRoll lms;
          let yaw_ok = (\<bar>yaw\<bar> \<le> max_yaw self1);
          let pitch_ok = (\<bar>pitch\<bar> \<le> max_pitch self1);
          let quality_good = (yaw_ok \<and> pitch_ok);
          let msg =
            (if quality_good then ''Good quality face detected!''
             else if \<not> yaw_ok
             then ''Face turned too much (Yaw: '' @ to_string (int_of_float yaw) @ degree_sign @ '')''
             else if \<not> pitch_ok
             then ''Face tilted too much (Pitch: '' @ to_string (int_of_float pitch) @ degree_sign @ '')''
             else []);
          let result = FaceResult7 True (int (length lms)) msg yaw pitch roll quality_good;
          Some (result\<lparr>landmarks := lms\<rparr>, self1)
        })"

text \<open>The message \<^verbatim>\<open>detectFace\<close> attaches to an outcome of the gate, for the angles \<open>a\<close>
  (yaw) and \<open>p\<close> (pitch) it estimated.\<close>

fun wasm_reason :: "GateOutcome \<Rightarrow> real \<Rightarrow> real \<Rightarrow> string" where
  "wasm_reason RejectNoFace a p = ''No face detected''"
| "wasm_reason RejectYaw a p =
     ''Face turned too much (Yaw: '' @ to_string (int_of_float a) @ degree_sign @ '')''"
| "wasm_reason RejectPitch a p =
     ''Face tilted too much (Pitch: '' @ to_string (int_of_float p) @ degree_sign @ '')''"
| "wasm_reason Accept a p = ''Good quality face detected!''"

definition getLandmark :: "SmartFaceProcessor \<Rightarrow> int32 \<Rightarrow> Landmark option" where
  \<comment> \<open>\<^verbatim>\<open>static_cast<int>(size)\<close> reads the low 32 bits of the size as two's complement\<close>
  "getLandmark self index =
     (if sint index \<ge> 0 \<and> sint index < sint (word_of_nat (length (last_landmarks self)) :: int32)
      then landmark (last_landmarks self) (sint index)
      else Some Landmark0)"

definition captureFrame :: "SmartFaceProcessor \<Rightarrow> int \<Rightarrow> int \<Rightarrow> val \<Rightarrow> (bool \<times> SmartFaceProcessor) option" where
  "captureFrame self width height imageData =
     (if max_captures self \<le>s capture_count self then Some (False, self)
      else do {
        (result, self1) \<leftarrow> detectFace self width height imageData;
        if detected result \<and> quality_good result
        then Some (True, self1\<lparr>capture_count := capture_count self1 + 1\<rparr>)
        else Some (False, self1)
      })"


section \<open>Sessions: sequences of calls\<close>

text \<open>The calls of the WASM processor that can change its state. The other exposed
  methods are \<^verbatim>\<open>const\<close>.\<close>

datatype wasm_call =
  Initialize
  | SetMaxYaw real
  | SetMaxPitch real
  | SetMaxCaptures int32
  | DetectFace int int val
  | CaptureFrame int int val
  | ResetCaptures

fun wasm_step :: "SmartFaceProcessor \<Rightarrow> wasm_call \<Rightarrow> SmartFaceProcessor option" where
  "wasm_step self Initialize = Some (snd (initialize self))"
| "wasm_step self (SetMaxYaw degrees) = Some (setMaxYaw self degrees)"
| "wasm_step self (SetMaxPitch degrees) = Some (setMaxPitch self degrees)"
| "wasm_step self (SetMaxCaptures count) = Some (setMaxCaptures self count)"
| "wasm_step self (DetectFace width height imageData) =
     map_option snd (detectFace self width height imageData)"
| "wasm_step self (CaptureFrame width height imageData) =
     map_option snd (captureFrame self width height imageData)"
| "wasm_step self ResetCaptures = Some (resetCaptures self)"

inductive wasm_reachable :: "SmartFaceProcessor \<Rightarrow> bool" where
  constructed: "wasm_reachable SmartFaceProcessor0"
| called: "wasm_reachable self \<Longrightarrow> wasm_step self c = Some self' \<Longrightarrow> wasm_reachable self'"

inductive calc_reachable :: "SmartCaptureCalculatorOptions \<Rightarrow> SmartCaptureCalculator \<Rightarrow> bool" where
  opened: "calc_reachable options (Open options)"
| processed: "calc_reachable options self \<Longrightarrow> Process self cc = Some (self', out)
     \<Longrightarrow> calc_reachable options self'"

text \<open>Calling \<^verbatim>\<open>captureFrame\<close> on a list of frames, and \<^verbatim>\<open>Process\<close> on a list of
  contexts, one after the other; the results of the calls are collected.\<close>

fun captureFrames :: "SmartFaceProcessor \<Rightarrow> (int \<times> int \<times> val) list \<Rightarrow> (bool list \<times> SmartFaceProcessor) option" where
  "captureFrames self [] = Some ([], self)"
| "captureFrames self ((width, height, imageData) # frames) = do {
     (b, self1) \<leftarrow> captureFrame self width height imageData;
     (bs, self2) \<leftarrow> captureFrames self1 frames;
     Some (b # bs, self2)
   }"

fun Processes :: "SmartCaptureCalculator \<Rightarrow> CalculatorContext list \<Rightarrow> (Outputs list \<times> SmartCaptureCalculator) option" where
  "Processes self [] = Some ([], self)"
| "Processes self (cc # ccs) = do {
     (self1, out) \<leftarrow> Process self cc;
     (outs, self2) \<leftarrow> Processes self1 ccs;
     Some (out # outs, self2)
   }"

text \<open>A frame the quality gate of the processor accepts: \<^verbatim>\<open>detectFace\<close> reports a
  detected face of good quality.\<close>

definition wasm_gate_accepts :: "SmartFaceProcessor \<Rightarrow> int \<times> int \<times> val \<Rightarrow> bool" where
  "wasm_gate_accepts self frame =
     (case frame of (width, height, imageData) \<Rightarrow>
        (case detectFace self width height imageData of
           Some (result, _) \<Rightarrow> detected result \<and> quality_good result
         | None \<Rightarrow> False))"

text \<open>A run of calls on the processor, from the first to the last, and the two counters
  of a processor as integers.\<close>

fun wasm_run :: "SmartFaceProcessor \<Rightarrow> wasm_call list \<Rightarrow> SmartFaceProcessor option" where
  "wasm_run self [] = Some self"
| "wasm_run self (c # cs) = do { self1 \<leftarrow> wasm_step self c; wasm_run self1 cs }"

definition counters :: "SmartFaceProcessor \<Rightarrow> int \<times> int" where
  "counters self = (sint (capture_count self), sint (max_captures self))"

section \<open>Basic facts\<close>

lemma sint_succ: "(a::int32) <s b \<Longrightarrow> sint (a + 1) = sint a + 1"
proof -
  assume "a <s b"
  then have "sint a < sint b" by (simp add: word_sless_alt)
  moreover have "sint b < 2 ^ 31" using sint_lt [of b] by simp
  moreover have "- (2 ^ 31) \<le> sint a" using sint_ge [of a] by simp
  ultimately have "signed_take_bit 31 (sint a + 1) = sint a + 1"
    by (intro signed_take_bit_int_eq_self) auto
  then show ?thesis by (simp add: sint_word_add)
qed

lemma sint_of_nat_le: "sint (word_of_nat n :: int32) \<le> int n"
proof -
  have "signed_take_bit 31 (int n) \<le> int n"
    by (simp add: signed_take_bit_int_less_eq_self_iff)
  then show ?thesis by (simp add: signed_of_nat)
qed

lemma sint_of_nat_small: "n < 2 ^ 31 \<Longrightarrow> sint (word_of_nat n :: int32) = int n"
proof -
  assume "n < 2 ^ 31"
  then have "int n < 2 ^ 31" by (metis of_nat_less_iff of_nat_numeral of_nat_power)
  then have "signed_take_bit 31 (int n) = int n"
    by (intro signed_take_bit_int_eq_self) auto
  then show ?thesis by (simp add: signed_of_nat)
qed

lemma ratio_bound:
  fixes a b :: real
  assumes "0 \<le> a" "0 \<le> b"
  shows "\<bar>(a - b) / (a + b + 0.001)\<bar> \<le> 1"
proof -
  have pos: "0 < a + b + 0.001" using assms by simp
  have "\<bar>a - b\<bar> \<le> a + b + 0.001" using assms by simp
  then show ?thesis using pos by (simp add: abs_if field_simps split: if_splits)
qed

lemma ratio_scaled_bound:
  fixes a b k :: real
  assumes "0 \<le> a" "0 \<le> b" "0 \<le> k"
  shows "\<bar>(a - b) / (a + b + 0.001) * k\<bar> \<le> k"
proof -
  have "\<bar>(a - b) / (a + b + 0.001)\<bar> * k \<le> 1 * k"
    using ratio_bound [OF assms(1,2)] assms(3) by (rule mult_right_mono)
  then show ?thesis using assms(3) by (simp add: abs_mult)
qed

subsection \<open>The estimators of the processor\<close>

lemma EstimateYaw_468:
  "468 \<le> length lms \<Longrightarrow>
   EstimateYaw lms =
     Some ((\<bar>x (lms ! 1) - x (lms ! 33)\<bar> - \<bar>x (lms ! 263) - x (lms ! 1)\<bar>) /
           (\<bar>x (lms ! 1) - x (lms ! 33)\<bar> + \<bar>x (lms ! 263) - x (lms ! 1)\<bar> + 0.001) * 45)"
  by (simp add: EstimateYaw_def landmark_def Let_def)

lemma EstimatePitch_468:
  "468 \<le> length lms \<Longrightarrow>
   EstimatePitch lms =
     Some ((\<bar>y (lms ! 10) - y (lms ! 168)\<bar> - \<bar>y (lms ! 152) - y (lms ! 168)\<bar>) /
           (\<bar>y (lms ! 10) - y (lms ! 168)\<bar> + \<bar>y (lms ! 152) - y (lms ! 168)\<bar> + 0.001) * 30)"
  by (simp add: EstimatePitch_def landmark_def Let_def)

lemma EstimateRoll_468:
  "468 \<le> length lms \<Longrightarrow>
   EstimateRoll lms =
     Some (atan2 (y (lms ! 263) - y (lms ! 33)) (x (lms ! 263) - x (lms ! 33)) * 180 / pi)"
  by (simp add: EstimateRoll_def landmark_def Let_def)

lemma EstimateYaw_total: "\<exists>v. EstimateYaw lms = Some v \<and> \<bar>v\<bar> \<le> 45"
proof (cases "length lms < 468")
  case True
  then show ?thesis by (simp add: EstimateYaw_def)
next
  case False
  then have len: "468 \<le> length lms" by simp
  have "\<bar>(\<bar>x (lms ! 1) - x (lms ! 33)\<bar> - \<bar>x (lms ! 263) - x (lms ! 1)\<bar>) /
           (\<bar>x (lms ! 1) - x (lms ! 33)\<bar> + \<bar>x (lms ! 263) - x (lms ! 1)\<bar> + 0.001) * 45\<bar> \<le> 45"
    by (rule ratio_scaled_bound) simp_all
  then show ?thesis using EstimateYaw_468 [OF len] by blast
qed

lemma EstimatePitch_total: "\<exists>v. EstimatePitch lms = Some v \<and> \<bar>v\<bar> \<le> 30"
proof (cases "length lms < 468")
  case True
  then show ?thesis by (simp add: EstimatePitch_def)
next
  case False
  then have len: "468 \<le> length lms" by simp
  have "\<bar>(\<bar>y (lms ! 10) - y (lms ! 168)\<bar> - \<bar>y (lms ! 152) - y (lms ! 168)\<bar>) /
           (\<bar>y (lms ! 10) - y (lms ! 168)\<bar> + \<bar>y (lms ! 152) - y (lms ! 168)\<bar> + 0.001) * 30\<bar> \<le> 30"
    by (rule ratio_scaled_bound) simp_all
  then show ?thesis using EstimatePitch_468 [OF len] by blast
qed

lemma EstimateRoll_total: "\<exists>v. EstimateRoll lms = Some v"
  by (cases "length lms < 468") (simp_all add: EstimateRoll_def landmark_def Let_def)

subsection \<open>Detecting and capturing\<close>

lemma length_processImageData:
  "length (fst (processImageData self w h d)) = (if 320 \<le> w \<and> 240 \<le> h then 468 else 0)"
  by (simp add: processImageData_def Let_def)

lemma detectFace_total: "\<exists>r self'. detectFace self w h d = Some (r, self')"
proof -
  obtain lms self1 where p: "processImageData self w h d = (lms, self1)"
    by (cases "processImageData self w h d")
  obtain a where a: "EstimateYaw lms = Some a" using EstimateYaw_total by blast
  obtain b where b: "EstimatePitch lms = Some b" using EstimatePitch_total by blast
  obtain c where c: "EstimateRoll lms = Some c" using EstimateRoll_total by blast
  show ?thesis
    by (simp add: detectFace_def p a b c Let_def)
qed

lemma detectFace_state:
  assumes "detectFace self w h d = Some (r, self')"
  shows "initialized self' = initialized self \<and> max_yaw self' = max_yaw self \<and>
         max_pitch self' = max_pitch self \<and> capture_count self' = capture_count self \<and>
         max_captures self' = max_captures self"
proof -
  obtain lms self1 where p: "processImageData self w h d = (lms, self1)"
    by (cases "processImageData self w h d")
  have s1: "self1 = self\<lparr>last_landmarks := lms\<rparr>"
    using p by (auto simp: processImageData_def Let_def)
  obtain a where a: "EstimateYaw lms = Some a" using EstimateYaw_total by blast
  obtain b where b: "EstimatePitch lms = Some b" using EstimatePitch_total by blast
  obtain c where c: "EstimateRoll lms = Some c" using EstimateRoll_total by blast
  have "self' = self \<or> self' = self1"
    using assms by (auto simp: detectFace_def p a b c Let_def split: if_splits)
  then show ?thesis using s1 by auto
qed


lemma detectFace_good:
  assumes "initialized self" "45 \<le> max_yaw self" "30 \<le> max_pitch self" "320 \<le> w" "240 \<le> h"
  shows "\<exists>r self'. detectFace self w h d = Some (r, self') \<and> detected r \<and> quality_good r \<and>
           message r = ''Good quality face detected!''"
proof -
  obtain lms self1 where p: "processImageData self w h d = (lms, self1)"
    by (cases "processImageData self w h d")
  have len: "length lms = 468"
    using length_processImageData [of self w h d] assms(4,5) by (simp add: p)
  have s1: "self1 = self\<lparr>last_landmarks := lms\<rparr>"
    using p by (auto simp: processImageData_def Let_def)
  obtain a where a: "EstimateYaw lms = Some a" "\<bar>a\<bar> \<le> 45" using EstimateYaw_total by blast
  obtain b where b: "EstimatePitch lms = Some b" "\<bar>b\<bar> \<le> 30" using EstimatePitch_total by blast
  obtain c where c: "EstimateRoll lms = Some c" using EstimateRoll_total by blast
  have ok: "\<bar>a\<bar> \<le> max_yaw self1" "\<bar>b\<bar> \<le> max_pitch self1"
    using a(2) b(2) assms(2,3) s1 by auto
  have ne: "lms \<noteq> []" using len by auto
  show ?thesis
    using assms(1,4,5) ok ne len
    by (simp add: detectFace_def p a(1) b(1) c Let_def FaceResult7_def)
qed

subsection \<open>The calculator's Process\<close>

lemma Process_limit:
  "calc_max_captures self \<le>s current_count self \<Longrightarrow> Process self cc = Some (self, no_output)"
  by (simp add: Process_def)

lemma Process_pose:
  assumes "\<not> calc_max_captures self \<le>s current_count self"
    and "IMAGE cc = Some img" "LANDMARKS cc = Some (lms # rest)" "PoseAngles lms = Some (a, p)"
  shows "Process self cc =
     (if \<bar>a\<bar> > calc_max_yaw self
      then Some (self, SendStatus cc ''Face turned too much (Yaw)'' no_output)
      else if \<bar>p\<bar> > calc_max_pitch self * 2
      then Some (self, SendStatus cc ''Face tilted up/down too much (Pitch)'' no_output)
      else Some (self\<lparr>current_count := current_count self + 1\<rparr>,
                 CropAndSend self img lms (SendStatus cc ''Captured!'' no_output)))"
  using assms by (simp add: Process_def Let_def)

lemma Process_accept:
  assumes "current_count self <s calc_max_captures self" "calc_gate_accepts self cc"
  shows "\<exists>out. Process self cc = Some (self\<lparr>current_count := current_count self + 1\<rparr>, out)"
proof -
  have n: "\<not> calc_max_captures self \<le>s current_count self"
    using assms(1) by (simp add: word_sless_alt word_sle_eq)
  show ?thesis
    using assms(2) n
    by (auto simp: Process_def calc_gate_accepts_def Let_def split: option.splits list.splits)
qed

lemma Process_state:
  assumes "Process self cc = Some (self', out)"
  shows "calc_max_captures self' = calc_max_captures self \<and> calc_max_yaw self' = calc_max_yaw self \<and>
         calc_max_pitch self' = calc_max_pitch self \<and> calc_padding self' = calc_padding self \<and>
         (current_count self' = current_count self \<or>
          current_count self <s calc_max_captures self \<and> current_count self' = current_count self + 1)"
  using assms
  by (auto simp: Process_def word_sless_alt word_sle_eq Let_def
           split: if_splits option.splits list.splits prod.splits bind_splits)

lemma calc_gate_accepts_cong:
  "calc_max_yaw s' = calc_max_yaw s \<Longrightarrow> calc_max_pitch s' = calc_max_pitch s \<Longrightarrow>
   calc_gate_accepts s' cc = calc_gate_accepts s cc"
  by (simp add: calc_gate_accepts_def split: option.splits list.splits prod.splits)

lemma wasm_gate_accepts_cong:
  assumes "initialized s' = initialized s" "max_yaw s' = max_yaw s" "max_pitch s' = max_pitch s"
  shows "wasm_gate_accepts s' f = wasm_gate_accepts s f"
proof -
  obtain w h d where f: "f = (w, h, d)" by (cases f)
  define lms where "lms = fst (processImageData s w h d)"
  have p: "processImageData s w h d = (lms, s\<lparr>last_landmarks := lms\<rparr>)"
          "processImageData s' w h d = (lms, s'\<lparr>last_landmarks := lms\<rparr>)"
    by (simp_all add: lms_def processImageData_def Let_def)
  obtain a where a: "EstimateYaw lms = Some a" using EstimateYaw_total by blast
  obtain b where b: "EstimatePitch lms = Some b" using EstimatePitch_total by blast
  obtain c where c: "EstimateRoll lms = Some c" using EstimateRoll_total by blast
  show ?thesis
    using assms by (simp add: wasm_gate_accepts_def f detectFace_def p a b c Let_def FaceResult7_def)
qed

lemma captureFrame_accept:
  assumes "capture_count self <s max_captures self" "wasm_gate_accepts self (w, h, d)"
  shows "\<exists>self'. captureFrame self w h d = Some (True, self') \<and>
           sint (capture_count self') = sint (capture_count self) + 1 \<and>
           initialized self' = initialized self \<and> max_yaw self' = max_yaw self \<and>
           max_pitch self' = max_pitch self \<and> max_captures self' = max_captures self"
proof -
  have n: "\<not> max_captures self \<le>s capture_count self"
    using assms(1) by (simp add: word_sless_alt word_sle_eq)
  obtain r self1 where df: "detectFace self w h d = Some (r, self1)"
    using detectFace_total [of self w h d] by blast
  note st = detectFace_state [OF df]
  have ok: "detected r \<and> quality_good r"
    using assms(2) by (simp add: wasm_gate_accepts_def df)
  have "sint (capture_count self1 + 1) = sint (capture_count self) + 1"
    using sint_succ [OF assms(1)] st by simp
  then show ?thesis using n ok st by (simp add: captureFrame_def df)
qed

lemma captureFrames_accepting:
  assumes "\<forall>f\<in>set frames. wasm_gate_accepts self f"
    and "sint (capture_count self) + int (length frames) \<le> sint (max_captures self)"
  shows "\<exists>self'. captureFrames self frames = Some (replicate (length frames) True, self') \<and>
           sint (capture_count self') = sint (capture_count self) + int (length frames) \<and>
           initialized self' = initialized self \<and> max_yaw self' = max_yaw self \<and>
           max_pitch self' = max_pitch self \<and> max_captures self' = max_captures self"
  using assms
proof (induction frames arbitrary: self)
  case Nil
  then show ?case by simp
next
  case (Cons f frames)
  obtain w h d where f: "f = (w, h, d)" by (cases f)
  have lt: "capture_count self <s max_captures self"
    using Cons.prems(2) by (simp add: word_sless_alt)
  have acc: "wasm_gate_accepts self (w, h, d)" using Cons.prems(1) f by simp
  obtain s1 where s1: "captureFrame self w h d = Some (True, s1)"
      "sint (capture_count s1) = sint (capture_count self) + 1"
      "initialized s1 = initialized self" "max_yaw s1 = max_yaw self"
      "max_pitch s1 = max_pitch self" "max_captures s1 = max_captures self"
    using captureFrame_accept [OF lt acc] by blast
  have a1: "\<forall>g\<in>set frames. wasm_gate_accepts s1 g"
    using Cons.prems(1) wasm_gate_accepts_cong [OF s1(3,4,5)] by simp
  have b1: "sint (capture_count s1) + int (length frames) \<le> sint (max_captures s1)"
    using Cons.prems(2) s1(2,6) by simp
  obtain s2 where s2: "captureFrames s1 frames = Some (replicate (length frames) True, s2)"
      "sint (capture_count s2) = sint (capture_count s1) + int (length frames)"
      "initialized s2 = initialized s1" "max_yaw s2 = max_yaw s1"
      "max_pitch s2 = max_pitch s1" "max_captures s2 = max_captures s1"
    using Cons.IH [OF a1 b1] by blast
  show ?case
    using s1 s2 by (simp add: f)
qed

lemma captureFrames_append:
  "captureFrames self (fs @ gs) = do {
     (bs, s1) \<leftarrow> captureFrames self fs;
     (cs, s2) \<leftarrow> captureFrames s1 gs;
     Some (bs @ cs, s2) }"
proof (induction fs arbitrary: self)
  case Nil
  then show ?case by (simp split: bind_splits)
next
  case (Cons f fs)
  obtain w h d where f: "f = (w, h, d)" by (cases f)
  show ?case
    by (cases "captureFrame self w h d") (auto simp: f Cons.IH split: bind_splits prod.splits)
qed

lemma Processes_accepting:
  assumes "\<forall>cc\<in>set ccs. calc_gate_accepts self cc"
    and "sint (current_count self) + int (length ccs) \<le> sint (calc_max_captures self)"
  shows "\<exists>outs self'. Processes self ccs = Some (outs, self') \<and> length outs = length ccs \<and>
           sint (current_count self') = sint (current_count self) + int (length ccs) \<and>
           calc_max_yaw self' = calc_max_yaw self \<and> calc_max_pitch self' = calc_max_pitch self \<and>
           calc_max_captures self' = calc_max_captures self"
  using assms
proof (induction ccs arbitrary: self)
  case Nil
  then show ?case by simp
next
  case (Cons cc ccs)
  have lt: "current_count self <s calc_max_captures self"
    using Cons.prems(2) by (simp add: word_sless_alt)
  have acc: "calc_gate_accepts self cc" using Cons.prems(1) by simp
  define s1 where "s1 = self\<lparr>current_count := current_count self + 1\<rparr>"
  obtain out where p: "Process self cc = Some (s1, out)"
    using Process_accept [OF lt acc] by (auto simp: s1_def)
  have c1: "sint (current_count s1) = sint (current_count self) + 1"
    using sint_succ [OF lt] by (simp add: s1_def)
  have f1: "calc_max_yaw s1 = calc_max_yaw self" "calc_max_pitch s1 = calc_max_pitch self"
           "calc_max_captures s1 = calc_max_captures self"
    by (simp_all add: s1_def)
  have a1: "\<forall>c\<in>set ccs. calc_gate_accepts s1 c"
    using Cons.prems(1) calc_gate_accepts_cong [OF f1(1,2)] by simp
  have b1: "sint (current_count s1) + int (length ccs) \<le> sint (calc_max_captures s1)"
    using Cons.prems(2) c1 f1(3) by simp
  obtain outs s2 where s2: "Processes s1 ccs = Some (outs, s2)" "length outs = length ccs"
      "sint (current_count s2) = sint (current_count s1) + int (length ccs)"
      "calc_max_yaw s2 = calc_max_yaw s1" "calc_max_pitch s2 = calc_max_pitch s1"
      "calc_max_captures s2 = calc_max_captures s1"
    using Cons.IH [OF a1 b1] by blast
  show ?case
    using p s2 c1 f1 by simp
qed

lemma Processes_append:
  "Processes self (cs @ ds) = do {
     (outs1, s1) \<leftarrow> Processes self cs;
     (outs2, s2) \<leftarrow> Processes s1 ds;
     Some (outs1 @ outs2, s2) }"
proof (induction cs arbitrary: self)
  case Nil
  then show ?case by (simp split: bind_splits)
next
  case (Cons c cs)
  show ?case
    by (cases "Process self c") (auto simp: Cons.IH split: bind_splits prod.splits)
qed

lemma PoseAngles_zero: "PoseAngles (replicate 468 Landmark0) = Some (0, 0)"
  by (simp add: PoseAngles_def landmark_def Landmark0_def atan2_def ToDegrees_def)


lemma captureFrame_effect:
  "\<exists>b self'. captureFrame self w h d = Some (b, self') \<and>
     (\<not> b \<longrightarrow> capture_count self' = capture_count self) \<and>
     (b \<longrightarrow> capture_count self <s max_captures self \<and>
            sint (capture_count self') = sint (capture_count self) + 1 \<and>
            max_yaw self' = max_yaw self \<and> max_pitch self' = max_pitch self \<and>
            max_captures self' = max_captures self \<and> initialized self' = initialized self)"
proof (cases "max_captures self \<le>s capture_count self")
  case True
  then have "captureFrame self w h d = Some (False, self)" by (simp add: captureFrame_def)
  then show ?thesis by blast
next
  case False
  then have lt: "capture_count self <s max_captures self" by (simp add: word_sless_alt word_sle_eq)
  obtain r self1 where df: "detectFace self w h d = Some (r, self1)"
    using detectFace_total [of self w h d] by blast
  note st = detectFace_state [OF df]
  show ?thesis
  proof (cases "detected r \<and> quality_good r")
    case True
    have "sint (capture_count self1 + 1) = sint (capture_count self) + 1"
      using sint_succ [OF lt] st by simp
    then show ?thesis using False True st lt by (auto simp: captureFrame_def df)
  next
    case no: False
    then show ?thesis using False st by (auto simp: captureFrame_def df)
  qed
qed
subsection \<open>Counters along a session\<close>

lemma wasm_step_count:
  assumes "wasm_step self c = Some self'"
  shows "capture_count self' = capture_count self \<or>
         ((\<exists>w h d. c = CaptureFrame w h d) \<and> capture_count self <s max_captures self \<and>
            sint (capture_count self') = sint (capture_count self) + 1) \<or>
         ((c = Initialize \<or> c = ResetCaptures) \<and> capture_count self' = 0)"
proof (cases c)
  case (DetectFace w h d)
  then obtain r where "detectFace self w h d = Some (r, self')" using assms by auto
  from detectFace_state [OF this] show ?thesis by simp
next
  case (CaptureFrame w h d)
  obtain b s1 where cf: "captureFrame self w h d = Some (b, s1)"
     "\<not> b \<longrightarrow> capture_count s1 = capture_count self"
     "b \<longrightarrow> capture_count self <s max_captures self \<and>
            sint (capture_count s1) = sint (capture_count self) + 1"
    using captureFrame_effect [of self w h d] by blast
  have s: "s1 = self'" using assms CaptureFrame cf(1) by simp
  show ?thesis using cf(2,3) s CaptureFrame by (cases b) auto
qed (use assms in \<open>auto simp: initialize_def setMaxYaw_def setMaxPitch_def setMaxCaptures_def
        resetCaptures_def\<close>)

lemma wasm_step_max:
  assumes "wasm_step self c = Some self'"
  shows "max_captures self' = max_captures self \<or> c = SetMaxCaptures (max_captures self')"
proof (cases c)
  case (DetectFace w h d)
  then obtain r where "detectFace self w h d = Some (r, self')" using assms by auto
  from detectFace_state [OF this] show ?thesis by simp
next
  case (CaptureFrame w h d)
  obtain b s1 where cf: "captureFrame self w h d = Some (b, s1)"
    using captureFrame_effect [of self w h d] by blast
  have s: "s1 = self'" using assms CaptureFrame cf(1) by simp
  obtain r s0 where df: "detectFace self w h d = Some (r, s0)"
    using detectFace_total [of self w h d] by blast
  note st = detectFace_state [OF df]
  have "max_captures s1 = max_captures self"
    using cf st by (auto simp: captureFrame_def df split: if_splits)
  then show ?thesis using s by simp
qed (use assms in \<open>auto simp: initialize_def setMaxYaw_def setMaxPitch_def setMaxCaptures_def
        resetCaptures_def\<close>)

lemma wasm_reachable_nonneg: "wasm_reachable self \<Longrightarrow> 0 \<le> sint (capture_count self)"
proof (induction rule: wasm_reachable.induct)
  case constructed
  show ?case by (simp add: SmartFaceProcessor0_def)
next
  case (called self c self')
  from wasm_step_count [OF called.hyps(2)] called.IH show ?case by auto
qed

lemma wasm_run_reachable:
  "wasm_reachable self \<Longrightarrow> wasm_run self cs = Some self' \<Longrightarrow> wasm_reachable self'"
proof (induction cs arbitrary: self)
  case Nil
  then show ?case by simp
next
  case (Cons c cs)
  then obtain s1 where s1: "wasm_step self c = Some s1" "wasm_run s1 cs = Some self'"
    by (auto split: bind_splits)
  have "wasm_reachable s1" using Cons.prems(1) s1(1) by (rule wasm_reachable.called)
  then show ?case using s1(2) by (rule Cons.IH)
qed

lemma calc_reachable_inv:
  assumes "calc_reachable options calc" "0 \<le> sint (opt_max_captures options)"
  shows "0 \<le> sint (current_count calc) \<and> current_count calc \<le>s calc_max_captures calc \<and>
         calc_max_captures calc = opt_max_captures options"
  using assms
proof (induction rule: calc_reachable.induct)
  case (opened options)
  then show ?case by (simp add: Open_def word_sle_eq)
next
  case (processed options self cc self' out)
  note st = Process_state [OF processed.hyps(2)]
  from st processed.IH [OF processed.prems] sint_succ [of "current_count self" "calc_max_captures self"]
  show ?case by (auto simp: word_sle_eq word_sless_alt)
qed

subsection \<open>Rounding to binary32\<close>

lemma ulp_search_numeral:
  "ulp_search (numeral k) u a = (if a < 2 ^ 24 * u then u else ulp_search (pred_numeral k) (2 * u) a)"
  by (simp add: numeral_eq_Suc)

lemma ulp_search_pos: "0 < u \<Longrightarrow> 0 < ulp_search n u a"
  by (induction n arbitrary: u) simp_all

lemma ulp_search_le: "ulp_search n u a = u \<or> 2 ^ 23 * ulp_search n u a \<le> a"
proof (induction n arbitrary: u)
  case 0
  then show ?case by simp
next
  case (Suc n)
  show ?case
  proof (cases "a < 2 ^ 24 * u")
    case True
    then show ?thesis by simp
  next
    case False
    from Suc [of "2 * u"] False show ?thesis by auto
  qed
qed

lemma ulp_pos: "0 < ulp r"
  unfolding ulp_def by (rule ulp_search_pos) simp

lemma ulp_le: "ulp r / 2 \<le> \<bar>r\<bar> / 2 ^ 24 + 1 / 2 ^ 150"
proof -
  have "ulp r = 1 / 2 ^ 149 \<or> 2 ^ 23 * ulp r \<le> \<bar>r\<bar>"
    unfolding ulp_def by (rule ulp_search_le)
  then show ?thesis
  proof
    assume "ulp r = 1 / 2 ^ 149"
    then show ?thesis by simp
  next
    assume "2 ^ 23 * ulp r \<le> \<bar>r\<bar>"
    then show ?thesis by simp
  qed
qed

lemma round_even_near: "\<bar>of_int (round_even q) - q\<bar> \<le> 1 / 2"
proof -
  have "of_int \<lfloor>q\<rfloor> \<le> q" "q < of_int \<lfloor>q\<rfloor> + 1" by linarith+
  then show ?thesis by (auto simp: round_even_def Let_def)
qed

lemma round32_near: "\<bar>round32 r - r\<bar> \<le> ulp r / 2"
proof -
  have u: "0 < ulp r" by (rule ulp_pos)
  have "round32 r - r = (of_int (round_even (r / ulp r)) - r / ulp r) * ulp r"
    using u by (simp add: round32_def Let_def algebra_simps)
  then have "\<bar>round32 r - r\<bar> = \<bar>of_int (round_even (r / ulp r)) - r / ulp r\<bar> * ulp r"
    using u by (simp add: abs_mult)
  also have "\<dots> \<le> 1 / 2 * ulp r"
    using u round_even_near [of "r / ulp r"] by (intro mult_right_mono) simp_all
  finally show ?thesis by simp
qed

lemma round32_bound:
  assumes "\<bar>r\<bar> \<le> B" "1 \<le> B"
  shows "\<bar>round32 r\<bar> \<le> 2 * B"
proof -
  have "\<bar>round32 r\<bar> \<le> \<bar>r\<bar> + \<bar>round32 r - r\<bar>" by simp
  also have "\<dots> \<le> \<bar>r\<bar> + (\<bar>r\<bar> / 2 ^ 24 + 1 / 2 ^ 150)"
    using round32_near [of r] ulp_le [of r] by simp
  also have "\<dots> \<le> B + (B / 2 ^ 24 + 1 / 2 ^ 150)"
    using assms(1) by (simp add: divide_right_mono add_mono)
  also have "\<dots> \<le> 2 * B"
  proof -
    have "B / 2 ^ 24 \<le> B / 2" using assms(2) by (simp add: frac_le)
    moreover have "(1::real) / 2 ^ 150 \<le> 1 / 2" by simp
    moreover have "(1::real) / 2 \<le> B / 2" using assms(2) by simp
    ultimately show ?thesis by linarith
  qed
  finally show ?thesis .
qed

lemma to_float_bound:
  assumes "\<bar>r\<bar> \<le> B" "1 \<le> B" "B \<le> 2 ^ 40"
  shows "to_float r = Some (round32 r)" "\<bar>round32 r\<bar> \<le> 2 * B"
proof -
  show b: "\<bar>round32 r\<bar> \<le> 2 * B" using assms(1,2) by (rule round32_bound)
  have "2 * B \<le> 2 * 2 ^ 40" using assms(3) by simp
  also have "\<dots> < (2::real) ^ 128" by simp
  finally have "\<bar>round32 r\<bar> < 2 ^ 128" using b by simp
  then show "to_float r = Some (round32 r)" by (simp add: to_float_def Let_def)
qed

lemma int_of_float_abs: "\<bar>real_of_int (int_of_float r)\<bar> \<le> \<bar>r\<bar>"
proof (cases "0 \<le> r")
  case True
  then have "0 \<le> \<lfloor>r\<rfloor>" by simp
  moreover have "real_of_int \<lfloor>r\<rfloor> \<le> r" by simp
  ultimately show ?thesis using True by (simp add: int_of_float_def)
next
  case False
  then have "\<lceil>r\<rceil> \<le> 0" by (simp add: ceiling_le_zero)
  moreover have "r \<le> real_of_int \<lceil>r\<rceil>" by simp
  ultimately show ?thesis using False by (simp add: int_of_float_def)
qed

lemma int_of_float32_bound:
  assumes "\<bar>r\<bar> \<le> B" "B \<le> 2 ^ 30"
  shows "int_of_float32 r = Some (int_of_float r)" "\<bar>real_of_int (int_of_float r)\<bar> \<le> B"
proof -
  show b: "\<bar>real_of_int (int_of_float r)\<bar> \<le> B"
    using int_of_float_abs [of r] assms(1) by simp
  then have "\<bar>real_of_int (int_of_float r)\<bar> \<le> 2 ^ 30" using assms(2) by simp
  then have "real_of_int \<bar>int_of_float r\<bar> \<le> real_of_int (2 ^ 30)" by simp
  then have "\<bar>int_of_float r\<bar> \<le> 2 ^ 30" by (simp only: of_int_le_iff)
  then have "- (2 ^ 31) \<le> int_of_float r \<and> int_of_float r < 2 ^ 31" by simp arith
  then show "int_of_float32 r = Some (int_of_float r)"
    by (simp add: int_of_float32_def Let_def)
qed

lemma int_div_abs: "\<bar>int_div a 2\<bar> \<le> \<bar>a\<bar>"
  by (simp add: int_div_def abs_mult sgn_if) presburger

subsection \<open>The crop rectangle\<close>

lemma fold_min_Min: "fold min xs (a::real) = Min (insert a (set xs))"
  using Min.set_eq_fold [of a xs] by simp

lemma fold_max_Max: "fold max xs (a::real) = Max (insert a (set xs))"
  using Max.set_eq_fold [of a xs] by simp

lemma min_max_loop_fold:
  "min_max_loop lms (a, b, c, d) =
     (fold min (map x lms) a, fold max (map x lms) b, fold min (map y lms) c, fold max (map y lms) d)"
  by (induction lms arbitrary: a b c d) (simp_all add: min.commute max.commute)

lemma Min_insert_seed:
  fixes A :: "real set"
  assumes "finite A" "A \<noteq> {}" "\<forall>v\<in>A. v \<le> a"
  shows "Min (insert a A) = Min A"
proof -
  have le: "Min A \<le> a" using assms by (meson Min_in)
  have "Min (insert a A) = min a (Min A)" using assms(1,2) by (rule Min_insert)
  then show ?thesis using le by (simp add: min_def)
qed

lemma Max_insert_seed:
  fixes A :: "real set"
  assumes "finite A" "A \<noteq> {}" "\<forall>v\<in>A. a \<le> v"
  shows "Max (insert a A) = Max A"
proof -
  have le: "a \<le> Max A" using assms by (meson Max_in)
  have "Max (insert a A) = max a (Max A)" using assms(1,2) by (rule Max_insert)
  then show ?thesis using le by (simp add: max_def)
qed

lemma min_max_loop_normalized:
  assumes "lms \<noteq> []" "\<forall>lm\<in>set lms. 0 \<le> x lm \<and> x lm \<le> 1 \<and> 0 \<le> y lm \<and> y lm \<le> 1"
  shows "min_max_loop lms (1, 0, 1, 0) =
           (Min (x ` set lms), Max (x ` set lms), Min (y ` set lms), Max (y ` set lms))"
proof -
  have ne: "x ` set lms \<noteq> {}" "y ` set lms \<noteq> {}" using assms(1) by simp_all
  have "Min (insert 1 (x ` set lms)) = Min (x ` set lms)"
    using ne assms(2) by (intro Min_insert_seed) auto
  moreover have "Max (insert 0 (x ` set lms)) = Max (x ` set lms)"
    using ne assms(2) by (intro Max_insert_seed) auto
  moreover have "Min (insert 1 (y ` set lms)) = Min (y ` set lms)"
    using ne assms(2) by (intro Min_insert_seed) auto
  moreover have "Max (insert 0 (y ` set lms)) = Max (y ` set lms)"
    using ne assms(2) by (intro Max_insert_seed) auto
  ultimately show ?thesis
    by (simp add: min_max_loop_fold fold_min_Min fold_max_Max)
qed

lemma abs_mult_le:
  fixes a b :: real
  assumes "\<bar>a\<bar> \<le> A" "\<bar>b\<bar> \<le> B"
  shows "\<bar>a * b\<bar> \<le> A * B"
proof -
  have "\<bar>a\<bar> * \<bar>b\<bar> \<le> A * B" using assms by (intro mult_mono) simp_all
  then show ?thesis by (simp add: abs_mult)
qed

lemma abs_of_int_le:
  assumes "\<bar>real_of_int k\<bar> \<le> real_of_int B"
  shows "\<bar>k\<bar> \<le> B"
proof -
  have "real_of_int \<bar>k\<bar> \<le> real_of_int B" using assms by simp
  then show ?thesis by (simp only: of_int_le_iff)
qed

lemma float_of_int_bound:
  assumes "\<bar>n\<bar> \<le> B" "1 \<le> B" "B \<le> 2 ^ 40"
  shows "float_of_int n = Some (round32 (of_int n))" "\<bar>round32 (of_int n)\<bar> \<le> 2 * of_int B"
proof -
  have a: "\<bar>real_of_int n\<bar> \<le> real_of_int B"
    using assms(1) by (metis of_int_abs of_int_le_iff)
  have b: "1 \<le> real_of_int B" using assms(2) by simp
  have "real_of_int B \<le> real_of_int (2 ^ 40)" using assms(3) by (simp only: of_int_le_iff)
  then have c: "real_of_int B \<le> 2 ^ 40" by simp
  show "float_of_int n = Some (round32 (of_int n))"
    unfolding float_of_int_def using a b c by (rule to_float_bound)
  show "\<bar>round32 (of_int n)\<bar> \<le> 2 * of_int B" using a b c by (rule to_float_bound)
qed

lemma crop_axis:
  fixes lo hi p :: real and n :: int
  defines "nf \<equiv> round32 (of_int n)"
  defines "d \<equiv> round32 (hi - lo)"
  defines "fw \<equiv> round32 (d * nf)"
  defines "w \<equiv> int_of_float fw"
  defines "lf \<equiv> round32 (lo * nf)"
  defines "hf \<equiv> round32 (of_int (int_div w 2))"
  defines "cf \<equiv> round32 (lf + hf)"
  defines "c \<equiv> int_of_float cf"
  defines "sc \<equiv> round32 (1 + p)"
  defines "wf2 \<equiv> round32 (of_int w)"
  defines "pf \<equiv> round32 (wf2 * sc)"
  defines "pw \<equiv> int_of_float pf"
  assumes lo: "\<bar>lo\<bar> \<le> 1" and hi: "\<bar>hi\<bar> \<le> 1"
    and n: "0 \<le> n" "n \<le> 65536" and p: "0 \<le> p" "p \<le> 100"
  shows "float_of_int n = Some nf" "fsub hi lo = Some d" "fmul d nf = Some fw"
    "int_of_float32 fw = Some w" "fmul lo nf = Some lf" "float_of_int (int_div w 2) = Some hf"
    "fadd lf hf = Some cf" "int_of_float32 cf = Some c" "fadd 1 p = Some sc"
    "float_of_int w = Some wf2" "fmul wf2 sc = Some pf" "int_of_float32 pf = Some pw"
    "int_sub c (int_div pw 2) = Some (c - int_div pw 2)"
    "int_sub n (max 0 (c - int_div pw 2)) = Some (n - max 0 (c - int_div pw 2))"
proof -
  have n': "\<bar>n\<bar> \<le> 65536" using n by simp
  show 1: "float_of_int n = Some nf"
    unfolding nf_def by (rule float_of_int_bound [OF n']) simp_all
  have nf: "\<bar>nf\<bar> \<le> 131072"
    unfolding nf_def using float_of_int_bound(2) [OF n'] by simp
  have "\<bar>hi - lo\<bar> \<le> 2" using lo hi by simp
  note t = to_float_bound [OF this, of ]
  show 2: "fsub hi lo = Some d" unfolding fsub_def d_def by (rule t) simp_all
  have d: "\<bar>d\<bar> \<le> 4" unfolding d_def using t(2) by simp
  have "\<bar>d * nf\<bar> \<le> 4 * 131072" using d nf by (rule abs_mult_le)
  then have "\<bar>d * nf\<bar> \<le> 524288" by simp
  note t = to_float_bound [OF this]
  show 3: "fmul d nf = Some fw" unfolding fmul_def fw_def by (rule t) simp_all
  have fw: "\<bar>fw\<bar> \<le> 1048576" unfolding fw_def using t(2) by simp
  note t = int_of_float32_bound [OF fw]
  show 4: "int_of_float32 fw = Some w" unfolding w_def by (rule t) simp
  have "\<bar>real_of_int w\<bar> \<le> real_of_int 1048576" unfolding w_def using t(2) by simp
  then have w: "\<bar>w\<bar> \<le> 1048576" by (rule abs_of_int_le)
  have "\<bar>lo * nf\<bar> \<le> 1 * 131072" using lo nf by (rule abs_mult_le)
  then have "\<bar>lo * nf\<bar> \<le> 131072" by simp
  note t = to_float_bound [OF this]
  show 5: "fmul lo nf = Some lf" unfolding fmul_def lf_def by (rule t) simp_all
  have lf: "\<bar>lf\<bar> \<le> 262144" unfolding lf_def using t(2) by simp
  have w2: "\<bar>int_div w 2\<bar> \<le> 1048576" using int_div_abs [of w] w by simp
  show 6: "float_of_int (int_div w 2) = Some hf"
    unfolding hf_def by (rule float_of_int_bound [OF w2]) simp_all
  have hf: "\<bar>hf\<bar> \<le> 2097152"
    unfolding hf_def using float_of_int_bound(2) [OF w2] by simp
  have "\<bar>lf + hf\<bar> \<le> 4194304" using lf hf by simp
  note t = to_float_bound [OF this]
  show 7: "fadd lf hf = Some cf" unfolding fadd_def cf_def by (rule t) simp_all
  have cf: "\<bar>cf\<bar> \<le> 8388608" unfolding cf_def using t(2) by simp
  note t = int_of_float32_bound [OF cf]
  show 8: "int_of_float32 cf = Some c" unfolding c_def by (rule t) simp
  have "\<bar>real_of_int c\<bar> \<le> real_of_int 8388608" unfolding c_def using t(2) by simp
  then have c: "\<bar>c\<bar> \<le> 8388608" by (rule abs_of_int_le)
  have "\<bar>1 + p\<bar> \<le> 128" using p by simp
  note t = to_float_bound [OF this]
  show 9: "fadd 1 p = Some sc" unfolding fadd_def sc_def by (rule t) simp_all
  have sc: "\<bar>sc\<bar> \<le> 256" unfolding sc_def using t(2) by simp
  show 10: "float_of_int w = Some wf2"
    unfolding wf2_def by (rule float_of_int_bound [OF w]) simp_all
  have wf2: "\<bar>wf2\<bar> \<le> 2097152"
    unfolding wf2_def using float_of_int_bound(2) [OF w] by simp
  have "\<bar>wf2 * sc\<bar> \<le> 2097152 * 256" using wf2 sc by (rule abs_mult_le)
  then have "\<bar>wf2 * sc\<bar> \<le> 536870912" by simp
  note t = to_float_bound [OF this]
  show 11: "fmul wf2 sc = Some pf" unfolding fmul_def pf_def by (rule t) simp_all
  have pf: "\<bar>pf\<bar> \<le> 1073741824" unfolding pf_def using t(2) by simp
  note t = int_of_float32_bound [OF pf]
  show 12: "int_of_float32 pf = Some pw" unfolding pw_def by (rule t) simp
  have "\<bar>real_of_int pw\<bar> \<le> real_of_int 1073741824" unfolding pw_def using t(2) by simp
  then have pw: "\<bar>pw\<bar> \<le> 1073741824" by (rule abs_of_int_le)
  have pw2: "\<bar>int_div pw 2\<bar> \<le> 1073741824" using int_div_abs [of pw] pw by simp
  show "int_sub c (int_div pw 2) = Some (c - int_div pw 2)"
  proof -
    have "- (2 ^ 31) \<le> c - int_div pw 2 \<and> c - int_div pw 2 < 2 ^ 31"
      using c pw2 by simp arith
    then show ?thesis by (simp add: int_sub_def)
  qed
  show "int_sub n (max 0 (c - int_div pw 2)) = Some (n - max 0 (c - int_div pw 2))"
  proof -
    have "- (2 ^ 31) \<le> n - max 0 (c - int_div pw 2) \<and> n - max 0 (c - int_div pw 2) < 2 ^ 31"
      using c pw2 n by simp arith
    then show ?thesis by (simp add: int_sub_def)
  qed
qed

lemma min_max_loop_bounded:
  assumes "\<forall>lm\<in>set lms. \<bar>x lm\<bar> \<le> 1 \<and> \<bar>y lm\<bar> \<le> 1"
  shows "\<exists>a b c d. min_max_loop lms (1, 0, 1, 0) = (a, b, c, d) \<and>
           \<bar>a\<bar> \<le> 1 \<and> \<bar>b\<bar> \<le> 1 \<and> \<bar>c\<bar> \<le> 1 \<and> \<bar>d\<bar> \<le> 1"
proof -
  have a: "Min (insert 1 (x ` set lms)) \<in> insert 1 (x ` set lms)" by (rule Min_in) simp_all
  have b: "Max (insert 0 (x ` set lms)) \<in> insert 0 (x ` set lms)" by (rule Max_in) simp_all
  have c: "Min (insert 1 (y ` set lms)) \<in> insert 1 (y ` set lms)" by (rule Min_in) simp_all
  have d: "Max (insert 0 (y ` set lms)) \<in> insert 0 (y ` set lms)" by (rule Max_in) simp_all
  have "\<bar>Min (insert 1 (x ` set lms))\<bar> \<le> 1" using a assms by auto
  moreover have "\<bar>Max (insert 0 (x ` set lms))\<bar> \<le> 1" using b assms by auto
  moreover have "\<bar>Min (insert 1 (y ` set lms))\<bar> \<le> 1" using c assms by auto
  moreover have "\<bar>Max (insert 0 (y ` set lms))\<bar> \<le> 1" using d assms by auto
  ultimately show ?thesis
    by (simp add: min_max_loop_fold fold_min_Min fold_max_Max)
qed

lemma crop_rect_PixelBox:
  assumes unit: "\<forall>lm\<in>set lms. \<bar>x lm\<bar> \<le> 1 \<and> \<bar>y lm\<bar> \<le> 1"
    and cw: "0 \<le> cols img" "cols img \<le> 65536" and rh: "0 \<le> rows img" "rows img \<le> 65536"
    and pd: "0 \<le> padding" "padding \<le> 100"
  shows "crop_rect padding img lms =
           Some (PixelBox padding (cols img) (rows img) (min_max_loop lms (1, 0, 1, 0)))"
proof -
  obtain a b c d where m: "min_max_loop lms (1, 0, 1, 0) = (a, b, c, d)"
    and bd: "\<bar>a\<bar> \<le> 1" "\<bar>b\<bar> \<le> 1" "\<bar>c\<bar> \<le> 1" "\<bar>d\<bar> \<le> 1"
    using min_max_loop_bounded [OF unit] by blast
  note ax = crop_axis [OF bd(1,2) cw pd] and ay = crop_axis [OF bd(3,4) rh pd]
  show ?thesis
    unfolding crop_rect_def PixelBox_def m
    by (simp add: Let_def ax ay)
qed

lemma crop_rect_RegionCropper:
  assumes ne: "lms \<noteq> []"
    and unit: "\<forall>lm\<in>set lms. 0 \<le> x lm \<and> x lm \<le> 1 \<and> 0 \<le> y lm \<and> y lm \<le> 1"
    and cw: "0 \<le> cols img" "cols img \<le> 65536" and rh: "0 \<le> rows img" "rows img \<le> 65536"
    and pd: "0 \<le> padding" "padding \<le> 100"
  shows "crop_rect padding img lms = Some (RegionCropper padding (cols img) (rows img) lms)"
proof -
  have "\<forall>lm\<in>set lms. \<bar>x lm\<bar> \<le> 1 \<and> \<bar>y lm\<bar> \<le> 1" using unit by auto
  from crop_rect_PixelBox [OF this cw rh pd] show ?thesis
    unfolding RegionCropper_def min_max_loop_normalized [OF ne unit] .
qed

lemma PixelBox_steps:
  assumes "int_of_float (round32 (round32 (max_x - min_x) * round32 (of_int imgW))) = w"
    and "int_of_float (round32 (round32 (max_y - min_y) * round32 (of_int imgH))) = h"
    and "int_of_float (round32 (round32 (min_x * round32 (of_int imgW)) + round32 (of_int (int_div w 2)))) = cx"
    and "int_of_float (round32 (round32 (min_y * round32 (of_int imgH)) + round32 (of_int (int_div h 2)))) = cy"
    and "int_of_float (round32 (round32 (of_int w) * round32 (1 + padding))) = padW"
    and "int_of_float (round32 (round32 (of_int h) * round32 (1 + padding))) = padH"
  shows "PixelBox padding imgW imgH (min_x, max_x, min_y, max_y) =
           (if min padW (imgW - max 0 (cx - int_div padW 2)) > 0 \<and>
               min padH (imgH - max 0 (cy - int_div padH 2)) > 0
            then Some (max 0 (cx - int_div padW 2), max 0 (cy - int_div padH 2),
                       min padW (imgW - max 0 (cx - int_div padW 2)),
                       min padH (imgH - max 0 (cy - int_div padH 2)))
            else None)"
  unfolding PixelBox_def prod.case Let_def assms ..

lemma int_sub_Some: "int_sub a b = Some c \<Longrightarrow> c = a - b"
  by (simp add: int_sub_def split: if_splits)

lemma crop_rect_inside:
  assumes "crop_rect padding img lms = Some (Some (rx, ry, rw, rh))"
  shows "0 \<le> rx \<and> 0 \<le> ry \<and> 0 < rw \<and> 0 < rh \<and> rx + rw \<le> cols img \<and> ry + rh \<le> rows img"
  using assms
  by (auto simp: crop_rect_def Let_def bind_eq_Some_conv dest!: int_sub_Some
           split: prod.splits if_splits)

lemma round32_0: "round32 0 = 0"
  by (simp add: round32_def ulp_def ulp_search_numeral round_even_def Let_def)

lemma to_float_0: "to_float 0 = Some 0"
  by (simp add: to_float_def round32_0)

lemma int_of_float_0: "int_of_float 0 = 0"
  by (simp add: int_of_float_def)

lemma int_div_0: "int_div 0 k = 0"
  by (simp add: int_div_def)

lemma int_of_float32_0: "int_of_float32 0 = Some 0"
  by (simp add: int_of_float32_def int_of_float_0)

lemma crop_rect_zero_face:
  "crop_rect padding img (replicate 468 Landmark0) = None \<or>
   crop_rect padding img (replicate 468 Landmark0) = Some None"
proof -
  have m: "min_max_loop (replicate 468 Landmark0) (1, 0, 1, 0) = (0, 0, 0, 0)"
    by (subst min_max_loop_normalized) (simp_all add: Landmark0_def)
  have z: "fsub 0 0 = Some 0" "\<And>v. fmul 0 v = Some 0" "fadd 0 0 = Some 0" "float_of_int 0 = Some 0"
    by (simp_all add: fsub_def fmul_def fadd_def float_of_int_def to_float_0)
  show ?thesis
    unfolding crop_rect_def m
    by (simp add: Let_def z int_of_float32_0 int_div_0 int_sub_def split: bind_splits)
qed

lemma ulp_search_found:
  assumes "k = 0 \<or> 2 ^ 23 * (2 ^ k * u) \<le> a" "a < 2 ^ 24 * (2 ^ k * u)" "k \<le> n" "0 < u"
  shows "ulp_search n u a = 2 ^ k * u"
  using assms
proof (induction k arbitrary: u n)
  case 0
  then show ?case by (cases n) simp_all
next
  case (Suc k)
  then obtain m where n: "n = Suc m" by (cases n) simp_all
  have ge: "2 ^ 24 * (2 ^ k * u) \<le> a" using Suc.prems(1) by (simp add: algebra_simps)
  have "2 ^ 24 * u \<le> 2 ^ 24 * (2 ^ k * u)" using Suc.prems(4) by simp
  then have nt: "\<not> a < 2 ^ 24 * u" using ge by simp
  have "ulp_search m (2 * u) a = 2 ^ k * (2 * u)"
  proof (rule Suc.IH)
    show "k = 0 \<or> 2 ^ 23 * (2 ^ k * (2 * u)) \<le> a" using ge by (simp add: algebra_simps)
    show "a < 2 ^ 24 * (2 ^ k * (2 * u))" using Suc.prems(2) by (simp add: algebra_simps)
    show "k \<le> m" using Suc.prems(3) n by simp
    show "0 < 2 * u" using Suc.prems(4) by simp
  qed
  then show ?case using nt n by (simp add: algebra_simps)
qed

lemma ulp_binade:
  assumes "2 ^ 23 * (2 ^ k / 2 ^ 149) \<le> \<bar>r\<bar>" "\<bar>r\<bar> < 2 ^ 24 * (2 ^ k / 2 ^ 149)" "k \<le> 253"
  shows "ulp r = 2 ^ k / 2 ^ 149"
proof -
  have "ulp_search 253 (1 / 2 ^ 149) \<bar>r\<bar> = 2 ^ k * (1 / 2 ^ 149)"
    using assms by (intro ulp_search_found) simp_all
  then show ?thesis by (simp add: ulp_def)
qed

lemma ulp_0: "ulp 0 = 1 / 2 ^ 149"
  by (simp add: ulp_def ulp_search_numeral)

lemma ulp_binades:
  "1 / 64 \<le> \<bar>r\<bar> \<Longrightarrow> \<bar>r\<bar> < 1 / 32 \<Longrightarrow> ulp r = 1 / 536870912"
  "1 / 32 \<le> \<bar>r\<bar> \<Longrightarrow> \<bar>r\<bar> < 1 / 16 \<Longrightarrow> ulp r = 1 / 268435456"
  "1 / 16 \<le> \<bar>r\<bar> \<Longrightarrow> \<bar>r\<bar> < 1 / 8 \<Longrightarrow> ulp r = 1 / 134217728"
  "1 / 8 \<le> \<bar>r\<bar> \<Longrightarrow> \<bar>r\<bar> < 1 / 4 \<Longrightarrow> ulp r = 1 / 67108864"
  "1 / 4 \<le> \<bar>r\<bar> \<Longrightarrow> \<bar>r\<bar> < 1 / 2 \<Longrightarrow> ulp r = 1 / 33554432"
  "1 / 2 \<le> \<bar>r\<bar> \<Longrightarrow> \<bar>r\<bar> < 1 \<Longrightarrow> ulp r = 1 / 16777216"
  "1 \<le> \<bar>r\<bar> \<Longrightarrow> \<bar>r\<bar> < 2 \<Longrightarrow> ulp r = 1 / 8388608"
  "2 \<le> \<bar>r\<bar> \<Longrightarrow> \<bar>r\<bar> < 4 \<Longrightarrow> ulp r = 1 / 4194304"
  "4 \<le> \<bar>r\<bar> \<Longrightarrow> \<bar>r\<bar> < 8 \<Longrightarrow> ulp r = 1 / 2097152"
  "8 \<le> \<bar>r\<bar> \<Longrightarrow> \<bar>r\<bar> < 16 \<Longrightarrow> ulp r = 1 / 1048576"
  "16 \<le> \<bar>r\<bar> \<Longrightarrow> \<bar>r\<bar> < 32 \<Longrightarrow> ulp r = 1 / 524288"
  "32 \<le> \<bar>r\<bar> \<Longrightarrow> \<bar>r\<bar> < 64 \<Longrightarrow> ulp r = 1 / 262144"
  "64 \<le> \<bar>r\<bar> \<Longrightarrow> \<bar>r\<bar> < 128 \<Longrightarrow> ulp r = 1 / 131072"
  "128 \<le> \<bar>r\<bar> \<Longrightarrow> \<bar>r\<bar> < 256 \<Longrightarrow> ulp r = 1 / 65536"
  "256 \<le> \<bar>r\<bar> \<Longrightarrow> \<bar>r\<bar> < 512 \<Longrightarrow> ulp r = 1 / 32768"
  "512 \<le> \<bar>r\<bar> \<Longrightarrow> \<bar>r\<bar> < 1024 \<Longrightarrow> ulp r = 1 / 16384"
  "1024 \<le> \<bar>r\<bar> \<Longrightarrow> \<bar>r\<bar> < 2048 \<Longrightarrow> ulp r = 1 / 8192"
  "2048 \<le> \<bar>r\<bar> \<Longrightarrow> \<bar>r\<bar> < 4096 \<Longrightarrow> ulp r = 1 / 4096"
  "4096 \<le> \<bar>r\<bar> \<Longrightarrow> \<bar>r\<bar> < 8192 \<Longrightarrow> ulp r = 1 / 2048"
  "8192 \<le> \<bar>r\<bar> \<Longrightarrow> \<bar>r\<bar> < 16384 \<Longrightarrow> ulp r = 1 / 1024"
  "16384 \<le> \<bar>r\<bar> \<Longrightarrow> \<bar>r\<bar> < 32768 \<Longrightarrow> ulp r = 1 / 512"
  "32768 \<le> \<bar>r\<bar> \<Longrightarrow> \<bar>r\<bar> < 65536 \<Longrightarrow> ulp r = 1 / 256"
  "65536 \<le> \<bar>r\<bar> \<Longrightarrow> \<bar>r\<bar> < 131072 \<Longrightarrow> ulp r = 1 / 128"
  "131072 \<le> \<bar>r\<bar> \<Longrightarrow> \<bar>r\<bar> < 262144 \<Longrightarrow> ulp r = 1 / 64"
  "262144 \<le> \<bar>r\<bar> \<Longrightarrow> \<bar>r\<bar> < 524288 \<Longrightarrow> ulp r = 1 / 32"
  "524288 \<le> \<bar>r\<bar> \<Longrightarrow> \<bar>r\<bar> < 1048576 \<Longrightarrow> ulp r = 1 / 16"
  "1048576 \<le> \<bar>r\<bar> \<Longrightarrow> \<bar>r\<bar> < 2097152 \<Longrightarrow> ulp r = 1 / 8"
  "2097152 \<le> \<bar>r\<bar> \<Longrightarrow> \<bar>r\<bar> < 4194304 \<Longrightarrow> ulp r = 1 / 4"
  "4194304 \<le> \<bar>r\<bar> \<Longrightarrow> \<bar>r\<bar> < 8388608 \<Longrightarrow> ulp r = 1 / 2"
  "8388608 \<le> \<bar>r\<bar> \<Longrightarrow> \<bar>r\<bar> < 16777216 \<Longrightarrow> ulp r = 1"
  "16777216 \<le> \<bar>r\<bar> \<Longrightarrow> \<bar>r\<bar> < 33554432 \<Longrightarrow> ulp r = 2"
  "33554432 \<le> \<bar>r\<bar> \<Longrightarrow> \<bar>r\<bar> < 67108864 \<Longrightarrow> ulp r = 4"
  "67108864 \<le> \<bar>r\<bar> \<Longrightarrow> \<bar>r\<bar> < 134217728 \<Longrightarrow> ulp r = 8"
  "134217728 \<le> \<bar>r\<bar> \<Longrightarrow> \<bar>r\<bar> < 268435456 \<Longrightarrow> ulp r = 16"
  "268435456 \<le> \<bar>r\<bar> \<Longrightarrow> \<bar>r\<bar> < 536870912 \<Longrightarrow> ulp r = 32"
  "536870912 \<le> \<bar>r\<bar> \<Longrightarrow> \<bar>r\<bar> < 1073741824 \<Longrightarrow> ulp r = 64"
  "1073741824 \<le> \<bar>r\<bar> \<Longrightarrow> \<bar>r\<bar> < 2147483648 \<Longrightarrow> ulp r = 128"
  "2147483648 \<le> \<bar>r\<bar> \<Longrightarrow> \<bar>r\<bar> < 4294967296 \<Longrightarrow> ulp r = 256"
  "4294967296 \<le> \<bar>r\<bar> \<Longrightarrow> \<bar>r\<bar> < 8589934592 \<Longrightarrow> ulp r = 512"
  "8589934592 \<le> \<bar>r\<bar> \<Longrightarrow> \<bar>r\<bar> < 17179869184 \<Longrightarrow> ulp r = 1024"
  "17179869184 \<le> \<bar>r\<bar> \<Longrightarrow> \<bar>r\<bar> < 34359738368 \<Longrightarrow> ulp r = 2048"
proof -
  show "1 / 64 \<le> \<bar>r\<bar> \<Longrightarrow> \<bar>r\<bar> < 1 / 32 \<Longrightarrow> ulp r = 1 / 536870912"
    using ulp_binade [of 120 r] by simp
  show "1 / 32 \<le> \<bar>r\<bar> \<Longrightarrow> \<bar>r\<bar> < 1 / 16 \<Longrightarrow> ulp r = 1 / 268435456"
    using ulp_binade [of 121 r] by simp
  show "1 / 16 \<le> \<bar>r\<bar> \<Longrightarrow> \<bar>r\<bar> < 1 / 8 \<Longrightarrow> ulp r = 1 / 134217728"
    using ulp_binade [of 122 r] by simp
  show "1 / 8 \<le> \<bar>r\<bar> \<Longrightarrow> \<bar>r\<bar> < 1 / 4 \<Longrightarrow> ulp r = 1 / 67108864"
    using ulp_binade [of 123 r] by simp
  show "1 / 4 \<le> \<bar>r\<bar> \<Longrightarrow> \<bar>r\<bar> < 1 / 2 \<Longrightarrow> ulp r = 1 / 33554432"
    using ulp_binade [of 124 r] by simp
  show "1 / 2 \<le> \<bar>r\<bar> \<Longrightarrow> \<bar>r\<bar> < 1 \<Longrightarrow> ulp r = 1 / 16777216"
    using ulp_binade [of 125 r] by simp
  show "1 \<le> \<bar>r\<bar> \<Longrightarrow> \<bar>r\<bar> < 2 \<Longrightarrow> ulp r = 1 / 8388608"
    using ulp_binade [of 126 r] by simp
  show "2 \<le> \<bar>r\<bar> \<Longrightarrow> \<bar>r\<bar> < 4 \<Longrightarrow> ulp r = 1 / 4194304"
    using ulp_binade [of 127 r] by simp
  show "4 \<le> \<bar>r\<bar> \<Longrightarrow> \<bar>r\<bar> < 8 \<Longrightarrow> ulp r = 1 / 2097152"
    using ulp_binade [of 128 r] by simp
  show "8 \<le> \<bar>r\<bar> \<Longrightarrow> \<bar>r\<bar> < 16 \<Longrightarrow> ulp r = 1 / 1048576"
    using ulp_binade [of 129 r] by simp
  show "16 \<le> \<bar>r\<bar> \<Longrightarrow> \<bar>r\<bar> < 32 \<Longrightarrow> ulp r = 1 / 524288"
    using ulp_binade [of 130 r] by simp
  show "32 \<le> \<bar>r\<bar> \<Longrightarrow> \<bar>r\<bar> < 64 \<Longrightarrow> ulp r = 1 / 262144"
    using ulp_binade [of 131 r] by simp
  show "64 \<le> \<bar>r\<bar> \<Longrightarrow> \<bar>r\<bar> < 128 \<Longrightarrow> ulp r = 1 / 131072"
    using ulp_binade [of 132 r] by simp
  show "128 \<le> \<bar>r\<bar> \<Longrightarrow> \<bar>r\<bar> < 256 \<Longrightarrow> ulp r = 1 / 65536"
    using ulp_binade [of 133 r] by simp
  show "256 \<le> \<bar>r\<bar> \<Longrightarrow> \<bar>r\<bar> < 512 \<Longrightarrow> ulp r = 1 / 32768"
    using ulp_binade [of 134 r] by simp
  show "512 \<le> \<bar>r\<bar> \<Longrightarrow> \<bar>r\<bar> < 1024 \<Longrightarrow> ulp r = 1 / 16384"
    using ulp_binade [of 135 r] by simp
  show "1024 \<le> \<bar>r\<bar> \<Longrightarrow> \<bar>r\<bar> < 2048 \<Longrightarrow> ulp r = 1 / 8192"
    using ulp_binade [of 136 r] by simp
  show "2048 \<le> \<bar>r\<bar> \<Longrightarrow> \<bar>r\<bar> < 4096 \<Longrightarrow> ulp r = 1 / 4096"
    using ulp_binade [of 137 r] by simp
  show "4096 \<le> \<bar>r\<bar> \<Longrightarrow> \<bar>r\<bar> < 8192 \<Longrightarrow> ulp r = 1 / 2048"
    using ulp_binade [of 138 r] by simp
  show "8192 \<le> \<bar>r\<bar> \<Longrightarrow> \<bar>r\<bar> < 16384 \<Longrightarrow> ulp r = 1 / 1024"
    using ulp_binade [of 139 r] by simp
  show "16384 \<le> \<bar>r\<bar> \<Longrightarrow> \<bar>r\<bar> < 32768 \<Longrightarrow> ulp r = 1 / 512"
    using ulp_binade [of 140 r] by simp
  show "32768 \<le> \<bar>r\<bar> \<Longrightarrow> \<bar>r\<bar> < 65536 \<Longrightarrow> ulp r = 1 / 256"
    using ulp_binade [of 141 r] by simp
  show "65536 \<le> \<bar>r\<bar> \<Longrightarrow> \<bar>r\<bar> < 131072 \<Longrightarrow> ulp r = 1 / 128"
    using ulp_binade [of 142 r] by simp
  show "131072 \<le> \<bar>r\<bar> \<Longrightarrow> \<bar>r\<bar> < 262144 \<Longrightarrow> ulp r = 1 / 64"
    using ulp_binade [of 143 r] by simp
  show "262144 \<le> \<bar>r\<bar> \<Longrightarrow> \<bar>r\<bar> < 524288 \<Longrightarrow> ulp r = 1 / 32"
    using ulp_binade [of 144 r] by simp
  show "524288 \<le> \<bar>r\<bar> \<Longrightarrow> \<bar>r\<bar> < 1048576 \<Longrightarrow> ulp r = 1 / 16"
    using ulp_binade [of 145 r] by simp
  show "1048576 \<le> \<bar>r\<bar> \<Longrightarrow> \<bar>r\<bar> < 2097152 \<Longrightarrow> ulp r = 1 / 8"
    using ulp_binade [of 146 r] by simp
  show "2097152 \<le> \<bar>r\<bar> \<Longrightarrow> \<bar>r\<bar> < 4194304 \<Longrightarrow> ulp r = 1 / 4"
    using ulp_binade [of 147 r] by simp
  show "4194304 \<le> \<bar>r\<bar> \<Longrightarrow> \<bar>r\<bar> < 8388608 \<Longrightarrow> ulp r = 1 / 2"
    using ulp_binade [of 148 r] by simp
  show "8388608 \<le> \<bar>r\<bar> \<Longrightarrow> \<bar>r\<bar> < 16777216 \<Longrightarrow> ulp r = 1"
    using ulp_binade [of 149 r] by simp
  show "16777216 \<le> \<bar>r\<bar> \<Longrightarrow> \<bar>r\<bar> < 33554432 \<Longrightarrow> ulp r = 2"
    using ulp_binade [of 150 r] by simp
  show "33554432 \<le> \<bar>r\<bar> \<Longrightarrow> \<bar>r\<bar> < 67108864 \<Longrightarrow> ulp r = 4"
    using ulp_binade [of 151 r] by simp
  show "67108864 \<le> \<bar>r\<bar> \<Longrightarrow> \<bar>r\<bar> < 134217728 \<Longrightarrow> ulp r = 8"
    using ulp_binade [of 152 r] by simp
  show "134217728 \<le> \<bar>r\<bar> \<Longrightarrow> \<bar>r\<bar> < 268435456 \<Longrightarrow> ulp r = 16"
    using ulp_binade [of 153 r] by simp
  show "268435456 \<le> \<bar>r\<bar> \<Longrightarrow> \<bar>r\<bar> < 536870912 \<Longrightarrow> ulp r = 32"
    using ulp_binade [of 154 r] by simp
  show "536870912 \<le> \<bar>r\<bar> \<Longrightarrow> \<bar>r\<bar> < 1073741824 \<Longrightarrow> ulp r = 64"
    using ulp_binade [of 155 r] by simp
  show "1073741824 \<le> \<bar>r\<bar> \<Longrightarrow> \<bar>r\<bar> < 2147483648 \<Longrightarrow> ulp r = 128"
    using ulp_binade [of 156 r] by simp
  show "2147483648 \<le> \<bar>r\<bar> \<Longrightarrow> \<bar>r\<bar> < 4294967296 \<Longrightarrow> ulp r = 256"
    using ulp_binade [of 157 r] by simp
  show "4294967296 \<le> \<bar>r\<bar> \<Longrightarrow> \<bar>r\<bar> < 8589934592 \<Longrightarrow> ulp r = 512"
    using ulp_binade [of 158 r] by simp
  show "8589934592 \<le> \<bar>r\<bar> \<Longrightarrow> \<bar>r\<bar> < 17179869184 \<Longrightarrow> ulp r = 1024"
    using ulp_binade [of 159 r] by simp
  show "17179869184 \<le> \<bar>r\<bar> \<Longrightarrow> \<bar>r\<bar> < 34359738368 \<Longrightarrow> ulp r = 2048"
    using ulp_binade [of 160 r] by simp
qed

lemmas float_eval = ulp_binades ulp_0 round32_def round_even_def Let_def int_of_float_def int_div_def

lemma crop_example:
  assumes "Min (x ` set lms) = round32 0.2" "Max (x ` set lms) = round32 0.6"
          "Min (y ` set lms) = round32 0.2" "Max (y ` set lms) = round32 0.7"
  shows "RegionCropper (round32 0.2) 1000 1000 lms = Some (160, 150, 480, 600)"
proof -
  have w: "int_of_float (round32 (round32 (round32 0.6 - round32 0.2) * round32 (of_int (1000::int)))) = 400"
    by (simp add: float_eval)
  have h: "int_of_float (round32 (round32 (round32 0.7 - round32 0.2) * round32 (of_int (1000::int)))) = 500"
    by (simp add: float_eval)
  have cx: "int_of_float (round32 (round32 (round32 0.2 * round32 (of_int (1000::int))) +
              round32 (of_int (int_div 400 2)))) = 400"
    by (simp add: float_eval)
  have cy: "int_of_float (round32 (round32 (round32 0.2 * round32 (of_int (1000::int))) +
              round32 (of_int (int_div 500 2)))) = 450"
    by (simp add: float_eval)
  have pw: "int_of_float (round32 (round32 (of_int (400::int)) * round32 (1 + round32 0.2))) = 480"
    by (simp add: float_eval)
  have ph: "int_of_float (round32 (round32 (of_int (500::int)) * round32 (1 + round32 0.2))) = 600"
    by (simp add: float_eval)
  show ?thesis
    unfolding RegionCropper_def assms PixelBox_steps [OF w h cx cy pw ph]
    by (simp add: int_div_def)
qed

lemma float_literals:
  "round32 0.2 = 13421773 / 67108864" "round32 0.6 = 5033165 / 8388608"
  "round32 0.7 = 11744051 / 16777216"
  by (simp_all add: float_eval)

lemma exact_product_differs:
  "int_of_float ((round32 0.7 - round32 0.2) * 1000) = 499 \<and>
   int_of_float (round32 (round32 (round32 0.7 - round32 0.2) * round32 1000)) = 500"
  by (simp add: float_eval)

lemma outside_loop:
  "min_max_loop (\<lparr>x = - (1 / 2), y = 1 / 4, z = 0\<rparr> # \<lparr>x = - (1 / 4), y = 3 / 4, z = 0\<rparr> #
      replicate 466 \<lparr>x = - (1 / 2), y = 1 / 4, z = 0\<rparr>) (1, 0, 1, 0) = (- (1 / 2), 0, 1 / 4, 3 / 4)"
  unfolding min_max_loop_fold fold_min_Min fold_max_Max by simp

lemma outside_crop:
  "crop_rect 0 \<lparr>cols = 1000, rows = 1000\<rparr>
     (\<lparr>x = - (1 / 2), y = 1 / 4, z = 0\<rparr> # \<lparr>x = - (1 / 4), y = 3 / 4, z = 0\<rparr> #
      replicate 466 \<lparr>x = - (1 / 2), y = 1 / 4, z = 0\<rparr>) = Some (Some (0, 250, 500, 500))"
proof -
  let ?lms = "\<lparr>x = - (1 / 2), y = 1 / 4, z = 0\<rparr> # \<lparr>x = - (1 / 4), y = 3 / 4, z = 0\<rparr> #
      replicate 466 \<lparr>x = - (1 / 2), y = 1 / 4, z = 0\<rparr>"
  let ?img = "\<lparr>cols = 1000, rows = 1000\<rparr>"
  have u: "\<forall>lm\<in>set ?lms. \<bar>x lm\<bar> \<le> 1 \<and> \<bar>y lm\<bar> \<le> 1" by simp
  have c: "crop_rect 0 ?img ?lms = Some (PixelBox 0 (cols ?img) (rows ?img) (min_max_loop ?lms (1, 0, 1, 0)))"
    by (rule crop_rect_PixelBox [OF u]) simp_all
  have w: "int_of_float (round32 (round32 (0 - - (1 / 2)) * round32 (of_int (1000::int)))) = 500"
    by (simp add: float_eval)
  have h: "int_of_float (round32 (round32 (3 / 4 - 1 / 4) * round32 (of_int (1000::int)))) = 500"
    by (simp add: float_eval)
  have cx: "int_of_float (round32 (round32 (- (1 / 2) * round32 (of_int (1000::int))) +
              round32 (of_int (int_div 500 2)))) = - 250"
    by (simp add: float_eval)
  have cy: "int_of_float (round32 (round32 (1 / 4 * round32 (of_int (1000::int))) +
              round32 (of_int (int_div 500 2)))) = 500"
    by (simp add: float_eval)
  have pw: "int_of_float (round32 (round32 (of_int (500::int)) * round32 (1 + 0))) = 500"
    by (simp add: float_eval)
  show ?thesis
    unfolding c outside_loop
    by (simp add: PixelBox_steps [OF w h cx cy pw pw] int_div_def)
qed

lemma outside_RegionCropper:
  "RegionCropper 0 1000 1000
     (\<lparr>x = - (1 / 2), y = 1 / 4, z = 0\<rparr> # \<lparr>x = - (1 / 4), y = 3 / 4, z = 0\<rparr> #
      replicate 466 \<lparr>x = - (1 / 2), y = 1 / 4, z = 0\<rparr>) = Some (0, 250, 250, 500)"
proof -
  let ?lms = "\<lparr>x = - (1 / 2), y = 1 / 4, z = 0\<rparr> # \<lparr>x = - (1 / 4), y = 3 / 4, z = 0\<rparr> #
      replicate 466 \<lparr>x = - (1 / 2), y = 1 / 4, z = 0\<rparr>"
  have m: "Min (x ` set ?lms) = - (1 / 2)" "Max (x ` set ?lms) = - (1 / 4)"
    "Min (y ` set ?lms) = 1 / 4" "Max (y ` set ?lms) = 3 / 4"
    by simp_all
  have w: "int_of_float (round32 (round32 (- (1 / 4) - - (1 / 2)) * round32 (of_int (1000::int)))) = 250"
    by (simp add: float_eval)
  have h: "int_of_float (round32 (round32 (3 / 4 - 1 / 4) * round32 (of_int (1000::int)))) = 500"
    by (simp add: float_eval)
  have cx: "int_of_float (round32 (round32 (- (1 / 2) * round32 (of_int (1000::int))) +
              round32 (of_int (int_div 250 2)))) = - 375"
    by (simp add: float_eval)
  have cy: "int_of_float (round32 (round32 (1 / 4 * round32 (of_int (1000::int))) +
              round32 (of_int (int_div 500 2)))) = 500"
    by (simp add: float_eval)
  have pw: "int_of_float (round32 (round32 (of_int (250::int)) * round32 (1 + 0))) = 250"
    by (simp add: float_eval)
  have ph: "int_of_float (round32 (round32 (of_int (500::int)) * round32 (1 + 0))) = 500"
    by (simp add: float_eval)
  show ?thesis
    unfolding RegionCropper_def m
    by (simp add: PixelBox_steps [OF w h cx cy pw ph] int_div_def)
qed

lemma crop_rect_overflow:
  "crop_rect 10000000 \<lparr>cols = 1000, rows = 1000\<rparr>
     (\<lparr>x = 1 / 4, y = 1 / 4, z = 0\<rparr> # \<lparr>x = 3 / 4, y = 3 / 4, z = 0\<rparr> #
      replicate 466 \<lparr>x = 1 / 2, y = 1 / 2, z = 0\<rparr>) = None"
proof -
  let ?lms = "\<lparr>x = 1 / 4, y = 1 / 4, z = 0\<rparr> # \<lparr>x = 3 / 4, y = 3 / 4, z = 0\<rparr> #
      replicate 466 \<lparr>x = 1 / 2, y = 1 / 2, z = 0\<rparr>"
  have m: "min_max_loop ?lms (1, 0, 1, 0) = (1 / 4, 3 / 4, 1 / 4, 3 / 4)"
    unfolding min_max_loop_fold fold_min_Min fold_max_Max by simp
  note ev = to_float_def fsub_def fmul_def fadd_def float_of_int_def int_of_float32_def float_eval
  have s: "float_of_int 1000 = Some 1000" "fsub (3 / 4) (1 / 4) = Some (1 / 2)"
    "fmul (1 / 2) 1000 = Some 500" "int_of_float32 500 = Some 500"
    "fmul (1 / 4) 1000 = Some 250" "float_of_int (int_div 500 2) = Some 250"
    "fadd 250 250 = Some 500" "fadd 1 10000000 = Some 10000001"
    "float_of_int 500 = Some 500" "fmul 500 10000001 = Some 5000000512"
    "int_of_float32 5000000512 = None"
    by (simp_all add: ev)
  show ?thesis
    unfolding crop_rect_def m by (simp add: s)
qed

lemma CropAndSend_zero_face: "CropAndSend self img (replicate 468 Landmark0) out = out"
  using crop_rect_zero_face [of "calc_padding self" img] by (auto simp: CropAndSend_def)

lemma Process_zero_face:
  assumes "current_count self <s calc_max_captures self" "0 \<le> calc_max_yaw self" "0 \<le> calc_max_pitch self"
  shows "Process self \<lparr>IMAGE = Some img, LANDMARKS = Some [replicate 468 Landmark0], HasTag_STATUS = True\<rparr>
           = Some (self\<lparr>current_count := current_count self + 1\<rparr>,
                   \<lparr>STATUS = [''Captured!''], CROPPED_FACE = []\<rparr>)"
proof -
  have n: "\<not> calc_max_captures self \<le>s current_count self"
    using assms(1) by (simp add: word_sless_alt word_sle_eq)
  show ?thesis
    using assms(2,3)
    by (subst Process_pose [OF n _ _ PoseAngles_zero])
       (simp_all add: CropAndSend_zero_face SendStatus_def no_output_def)
qed

subsection \<open>Bounds on the arc tangent and on pi\<close>

lemma arctan_upper3:
  fixes t :: real
  assumes "0 \<le> t"
  shows "arctan t \<le> t - t ^ 3 / 3 + t ^ 5 / 5"
proof -
  let ?f = "\<lambda>u::real. u - u ^ 3 / 3 + u ^ 5 / 5 - arctan u"
  have "?f 0 \<le> ?f t"
  proof (rule DERIV_nonneg_imp_nondecreasing [OF assms])
    fix u :: real
    have d: "DERIV ?f u :> 1 - u ^ 2 + u ^ 4 - inverse (1 + u ^ 2)"
      by (auto intro!: derivative_eq_intros simp: field_simps)
    have p: "0 < 1 + u ^ 2" by (simp add: add_pos_nonneg)
    have "(1 - u ^ 2 + u ^ 4) * (1 + u ^ 2) = 1 + u ^ 6" by (simp add: algebra_simps power_add [symmetric] numeral_eq_Suc)
    then have "1 \<le> (1 - u ^ 2 + u ^ 4) * (1 + u ^ 2)" by simp
    then have "inverse (1 + u ^ 2) \<le> 1 - u ^ 2 + u ^ 4"
      using p by (simp add: field_simps)
    then show "\<exists>v. DERIV ?f u :> v \<and> 0 \<le> v" using d by (intro exI conjI) auto
  qed
  then show ?thesis by simp
qed

lemma arctan_lower4:
  fixes t :: real
  assumes "0 \<le> t"
  shows "t - t ^ 3 / 3 + t ^ 5 / 5 - t ^ 7 / 7 \<le> arctan t"
proof -
  let ?f = "\<lambda>u::real. arctan u - (u - u ^ 3 / 3 + u ^ 5 / 5 - u ^ 7 / 7)"
  have "?f 0 \<le> ?f t"
  proof (rule DERIV_nonneg_imp_nondecreasing [OF assms])
    fix u :: real
    have d: "DERIV ?f u :> inverse (1 + u ^ 2) - (1 - u ^ 2 + u ^ 4 - u ^ 6)"
      by (auto intro!: derivative_eq_intros simp: field_simps)
    have p: "0 < 1 + u ^ 2" by (simp add: add_pos_nonneg)
    have "(1 - u ^ 2 + u ^ 4 - u ^ 6) * (1 + u ^ 2) = 1 - u ^ 8" by (simp add: algebra_simps power_add [symmetric] numeral_eq_Suc)
    then have "(1 - u ^ 2 + u ^ 4 - u ^ 6) * (1 + u ^ 2) \<le> 1" by simp
    then have "1 - u ^ 2 + u ^ 4 - u ^ 6 \<le> inverse (1 + u ^ 2)"
      using p by (simp add: field_simps)
    then show "\<exists>v. DERIV ?f u :> v \<and> 0 \<le> v" using d by (intro exI conjI) auto
  qed
  then show ?thesis by simp
qed

lemma pi_gt_31415: "3.1415 < pi"
proof -
  have a: "(1/5) - (1/5) ^ 3 / 3 + (1/5) ^ 5 / 5 - (1/5) ^ 7 / 7 \<le> arctan (1/5 :: real)"
    by (rule arctan_lower4) simp
  have b: "arctan (1/239 :: real) \<le> (1/239) - (1/239) ^ 3 / 3 + (1/239) ^ 5 / 5"
    by (rule arctan_upper3) simp
  have "pi = 16 * arctan (1/5) - 4 * arctan (1/239)" using machin by simp
  then show ?thesis using a b by (simp add: power_divide)
qed

lemma pi_lt_31417: "pi < 3.1417"
proof -
  have a: "arctan (1/5 :: real) \<le> (1/5) - (1/5) ^ 3 / 3 + (1/5) ^ 5 / 5"
    by (rule arctan_upper3) simp
  have b: "(1/239) - (1/239) ^ 3 / 3 + (1/239) ^ 5 / 5 - (1/239) ^ 7 / 7 \<le> arctan (1/239 :: real)"
    by (rule arctan_lower4) simp
  have "pi = 16 * arctan (1/5) - 4 * arctan (1/239)" using machin by simp
  then show ?thesis using a b by (simp add: power_divide)
qed




subsection \<open>The depth-based angles\<close>

lemma atan2_zero_left: "a < 0 \<Longrightarrow> atan2 0 a = pi"
  by (simp add: atan2_def)

lemma atan2_zero_right: "0 \<le> a \<Longrightarrow> atan2 0 a = 0"
  by (simp add: atan2_def)

lemma PoseAngles_455:
  "455 \<le> length lms \<Longrightarrow> PoseAngles lms = Some (depth_yaw lms, depth_pitch lms)"
  by (simp add: PoseAngles_def landmark_def depth_yaw_def depth_pitch_def ToDegrees_def Let_def)


subsection \<open>The outcomes of detectFace and Process\<close>

lemma detectFace_cases:
  assumes "initialized self" "100 \<le> w" "100 \<le> h"
  shows "\<exists>r lms a p c.
     detectFace self w h d = Some (r, self\<lparr>last_landmarks := lms\<rparr>) \<and>
     lms = fst (processImageData self w h d) \<and>
     EstimateYaw lms = Some a \<and> EstimatePitch lms = Some p \<and> EstimateRoll lms = Some c \<and>
     (length lms < 468 \<longrightarrow> r = FaceResult7 False 0 ''No face detected'' 0 0 0 False) \<and>
     (468 \<le> length lms \<longrightarrow>
        r = (FaceResult7 True (int (length lms))
              (wasm_reason (QualityGate 1 (max_yaw self) (max_pitch self) (Some (a, p))) a p)
              a p c (\<bar>a\<bar> \<le> max_yaw self \<and> \<bar>p\<bar> \<le> max_pitch self))\<lparr>landmarks := lms\<rparr>)"
proof -
  define lms where "lms = fst (processImageData self w h d)"
  have p: "processImageData self w h d = (lms, self\<lparr>last_landmarks := lms\<rparr>)"
    by (simp add: lms_def processImageData_def Let_def)
  obtain a where a: "EstimateYaw lms = Some a" using EstimateYaw_total by blast
  obtain b where b: "EstimatePitch lms = Some b" using EstimatePitch_total by blast
  obtain c where c: "EstimateRoll lms = Some c" using EstimateRoll_total by blast
  show ?thesis
  proof (cases "length lms < 468")
    case True
    then have "detectFace self w h d =
        Some (FaceResult7 False 0 ''No face detected'' 0 0 0 False, self\<lparr>last_landmarks := lms\<rparr>)"
      using assms by (simp add: detectFace_def p)
    then show ?thesis using True a b c lms_def by auto
  next
    case False
    then have ne: "lms \<noteq> []" by auto
    have "detectFace self w h d =
        Some ((FaceResult7 True (int (length lms))
              (wasm_reason (QualityGate 1 (max_yaw self) (max_pitch self) (Some (a, b))) a b)
              a b c (\<bar>a\<bar> \<le> max_yaw self \<and> \<bar>b\<bar> \<le> max_pitch self))\<lparr>landmarks := lms\<rparr>,
              self\<lparr>last_landmarks := lms\<rparr>)"
      using assms False ne
      by (simp add: detectFace_def p a b c Let_def QualityGate_def not_le not_less)
    then show ?thesis using False a b c lms_def by auto
  qed
qed


lemma Process_no_face:
  assumes "\<not> calc_max_captures calc \<le>s current_count calc" "IMAGE cc = Some img" "LANDMARKS cc = Some []"
  shows "Process calc cc = Some (calc, SendStatus cc ''No face detected'' no_output)"
  using assms by (simp add: Process_def)

lemma detectFace_quality:
  assumes "detectFace self w h d = Some (r, self')" "detected r"
  shows "quality_good r \<longleftrightarrow> \<bar>yaw r\<bar> \<le> max_yaw self \<and> \<bar>pitch r\<bar> \<le> max_pitch self"
proof -
  have i: "initialized self \<and> 100 \<le> w \<and> 100 \<le> h"
    using assms by (auto simp: detectFace_def FaceResult7_def split: if_splits)
  then obtain r' lms a p c where df:
     "detectFace self w h d = Some (r', self\<lparr>last_landmarks := lms\<rparr>)"
     "length lms < 468 \<longrightarrow> r' = FaceResult7 False 0 ''No face detected'' 0 0 0 False"
     "468 \<le> length lms \<longrightarrow>
        r' = (FaceResult7 True (int (length lms))
              (wasm_reason (QualityGate 1 (max_yaw self) (max_pitch self) (Some (a, p))) a p)
              a p c (\<bar>a\<bar> \<le> max_yaw self \<and> \<bar>p\<bar> \<le> max_pitch self))\<lparr>landmarks := lms\<rparr>"
    using detectFace_cases [of self w h d] by blast
  have e: "r' = r" using df(1) assms(1) by simp
  have "468 \<le> length lms"
    using df(2) assms(2) e by (cases "length lms < 468") (auto simp: FaceResult7_def)
  then show ?thesis using df(3) e by (auto simp: FaceResult7_def)
qed

lemma PoseAngles_pitch_18:
  "PoseAngles ((replicate 468 Landmark0)[1 := \<lparr>x = 0, y = tan (pi / 10), z = 1\<rparr>]) = Some (0, 18)"
proof -
  have e: "arctan (tan (pi / 10)) = pi / 10"
    by (rule arctan_tan) (simp_all add: field_simps)
  show ?thesis
    by (simp add: PoseAngles_def landmark_def Landmark0_def atan2_def ToDegrees_def e)
qed

subsection \<open>The angles of the generated landmarks\<close>

lemma cos_lower2:
  fixes t :: real
  assumes "0 \<le> t"
  shows "1 - t ^ 2 / 2 \<le> cos t"
proof -
  let ?f = "\<lambda>u::real. cos u - (1 - u ^ 2 / 2)"
  have "?f 0 \<le> ?f t"
  proof (rule DERIV_nonneg_imp_nondecreasing [OF assms])
    fix u :: real
    assume "0 \<le> u"
    then have "sin u \<le> u" by (rule sin_x_le_x)
    moreover have "DERIV ?f u :> - sin u + u"
      by (auto intro!: derivative_eq_intros)
    ultimately show "\<exists>v. DERIV ?f u :> v \<and> 0 \<le> v" by (intro exI conjI) auto
  qed
  then show ?thesis by simp
qed

lemma sin_lower3:
  fixes t :: real
  assumes "0 \<le> t"
  shows "t - t ^ 3 / 6 \<le> sin t"
proof -
  let ?f = "\<lambda>u::real. sin u - (u - u ^ 3 / 6)"
  have "?f 0 \<le> ?f t"
  proof (rule DERIV_nonneg_imp_nondecreasing [OF assms])
    fix u :: real
    assume "0 \<le> u"
    then have "1 - u ^ 2 / 2 \<le> cos u" by (rule cos_lower2)
    moreover have "DERIV ?f u :> cos u - (1 - u ^ 2 / 2)"
      by (auto intro!: derivative_eq_intros)
    ultimately show "\<exists>v. DERIV ?f u :> v \<and> 0 \<le> v" by (intro exI conjI) auto
  qed
  then show ?thesis by simp
qed

lemma cos_upper4:
  fixes t :: real
  assumes "0 \<le> t"
  shows "cos t \<le> 1 - t ^ 2 / 2 + t ^ 4 / 24"
proof -
  let ?f = "\<lambda>u::real. 1 - u ^ 2 / 2 + u ^ 4 / 24 - cos u"
  have "?f 0 \<le> ?f t"
  proof (rule DERIV_nonneg_imp_nondecreasing [OF assms])
    fix u :: real
    assume "0 \<le> u"
    then have "u - u ^ 3 / 6 \<le> sin u" by (rule sin_lower3)
    moreover have "DERIV ?f u :> sin u - (u - u ^ 3 / 6)"
      by (auto intro!: derivative_eq_intros)
    ultimately show "\<exists>v. DERIV ?f u :> v \<and> 0 \<le> v" by (intro exI conjI) auto
  qed
  then show ?thesis by simp
qed

lemma sin_upper5:
  fixes t :: real
  assumes "0 \<le> t"
  shows "sin t \<le> t - t ^ 3 / 6 + t ^ 5 / 120"
proof -
  let ?f = "\<lambda>u::real. u - u ^ 3 / 6 + u ^ 5 / 120 - sin u"
  have "?f 0 \<le> ?f t"
  proof (rule DERIV_nonneg_imp_nondecreasing [OF assms])
    fix u :: real
    assume "0 \<le> u"
    then have "cos u \<le> 1 - u ^ 2 / 2 + u ^ 4 / 24" by (rule cos_upper4)
    moreover have "DERIV ?f u :> 1 - u ^ 2 / 2 + u ^ 4 / 24 - cos u"
      by (auto intro!: derivative_eq_intros)
    ultimately show "\<exists>v. DERIV ?f u :> v \<and> 0 \<le> v" by (intro exI conjI) auto
  qed
  then show ?thesis by simp
qed

lemma cos_lower6:
  fixes t :: real
  assumes "0 \<le> t"
  shows "1 - t ^ 2 / 2 + t ^ 4 / 24 - t ^ 6 / 720 \<le> cos t"
proof -
  let ?f = "\<lambda>u::real. cos u - (1 - u ^ 2 / 2 + u ^ 4 / 24 - u ^ 6 / 720)"
  have "?f 0 \<le> ?f t"
  proof (rule DERIV_nonneg_imp_nondecreasing [OF assms])
    fix u :: real
    assume "0 \<le> u"
    then have "sin u \<le> u - u ^ 3 / 6 + u ^ 5 / 120" by (rule sin_upper5)
    moreover have "DERIV ?f u :> u - u ^ 3 / 6 + u ^ 5 / 120 - sin u"
      by (auto intro!: derivative_eq_intros)
    ultimately show "\<exists>v. DERIV ?f u :> v \<and> 0 \<le> v" by (intro exI conjI) auto
  qed
  then show ?thesis by simp
qed

lemma sin_lower7:
  fixes t :: real
  assumes "0 \<le> t"
  shows "t - t ^ 3 / 6 + t ^ 5 / 120 - t ^ 7 / 5040 \<le> sin t"
proof -
  let ?f = "\<lambda>u::real. sin u - (u - u ^ 3 / 6 + u ^ 5 / 120 - u ^ 7 / 5040)"
  have "?f 0 \<le> ?f t"
  proof (rule DERIV_nonneg_imp_nondecreasing [OF assms])
    fix u :: real
    assume "0 \<le> u"
    then have "1 - u ^ 2 / 2 + u ^ 4 / 24 - u ^ 6 / 720 \<le> cos u" by (rule cos_lower6)
    moreover have "DERIV ?f u :> cos u - (1 - u ^ 2 / 2 + u ^ 4 / 24 - u ^ 6 / 720)"
      by (auto intro!: derivative_eq_intros)
    ultimately show "\<exists>v. DERIV ?f u :> v \<and> 0 \<le> v" by (intro exI conjI) auto
  qed
  then show ?thesis by simp
qed

lemma cos_between:
  fixes t lo hi :: real
  assumes "0 \<le> lo" "lo \<le> t" "t \<le> hi" "hi \<le> 3"
  shows "1 - hi ^ 2 / 2 \<le> cos t" "cos t \<le> 1 - lo ^ 2 / 2 + lo ^ 4 / 24"
proof -
  have pi3: "3 \<le> pi" using pi_gt_31415 by simp
  have "cos hi \<le> cos t"
    using assms pi3 by (intro cos_monotone_0_pi_le) auto
  moreover have "1 - hi ^ 2 / 2 \<le> cos hi" using assms by (intro cos_lower2) auto
  ultimately show "1 - hi ^ 2 / 2 \<le> cos t" by simp
  have "cos t \<le> cos lo"
    using assms pi3 by (intro cos_monotone_0_pi_le) auto
  moreover have "cos lo \<le> 1 - lo ^ 2 / 2 + lo ^ 4 / 24" using assms by (intro cos_upper4) auto
  ultimately show "cos t \<le> 1 - lo ^ 2 / 2 + lo ^ 4 / 24" by simp
qed

lemma sin_between:
  fixes t lo hi :: real
  assumes "0 \<le> lo" "lo \<le> t" "t \<le> hi" "hi \<le> 3 / 2"
  shows "lo - lo ^ 3 / 6 + lo ^ 5 / 120 - lo ^ 7 / 5040 \<le> sin t"
        "sin t \<le> hi - hi ^ 3 / 6 + hi ^ 5 / 120"
proof -
  have pi3: "3 / 2 \<le> pi / 2" using pi_gt_31415 by simp
  have "sin lo \<le> sin t"
    using assms pi3 by (intro sin_monotone_2pi_le) auto
  moreover have "lo - lo ^ 3 / 6 + lo ^ 5 / 120 - lo ^ 7 / 5040 \<le> sin lo"
    using assms by (intro sin_lower7) auto
  ultimately show "lo - lo ^ 3 / 6 + lo ^ 5 / 120 - lo ^ 7 / 5040 \<le> sin t" by simp
  have "sin t \<le> sin hi"
    using assms pi3 by (intro sin_monotone_2pi_le) auto
  moreover have "sin hi \<le> hi - hi ^ 3 / 6 + hi ^ 5 / 120" using assms by (intro sin_upper5) auto
  ultimately show "sin t \<le> hi - hi ^ 3 / 6 + hi ^ 5 / 120" by simp
qed

lemma generated_cos:
  "0.9999 \<le> cos (2 * pi / 468)" "cos (2 * pi / 468) \<le> 1"
  "0.9018 \<le> cos (66 * pi / 468)" "cos (66 * pi / 468) \<le> 0.9035"
  "0.9241 \<le> cos (58 * pi / 468)" "cos (58 * pi / 468) \<le> 1"
proof -
  have a: "0.0134 \<le> 2 * pi / 468" "2 * pi / 468 \<le> 0.0135"
    using pi_gt_31415 pi_lt_31417 by simp_all
  have b: "0.44303 \<le> 66 * pi / 468" "66 * pi / 468 \<le> 0.44307"
    using pi_gt_31415 pi_lt_31417 by simp_all
  have c: "0.3893 \<le> 58 * pi / 468" "58 * pi / 468 \<le> 0.38936"
    using pi_gt_31415 pi_lt_31417 by simp_all
  show "0.9999 \<le> cos (2 * pi / 468)"
    using cos_between(1) [OF _ a] by (simp add: power_divide)
  show "0.9018 \<le> cos (66 * pi / 468)"
    using cos_between(1) [OF _ b] by (simp add: power_divide)
  show "cos (66 * pi / 468) \<le> 0.9035"
    using cos_between(2) [OF _ b] by (simp add: power_divide)
  show "0.9241 \<le> cos (58 * pi / 468)"
    using cos_between(1) [OF _ c] by (simp add: power_divide)
qed simp_all

lemma generated_sin:
  "0.1338 \<le> sin (20 * pi / 468)" "sin (20 * pi / 468) \<le> 0.1343"
  "0.7701 \<le> sin (132 * pi / 468)" "sin (132 * pi / 468) \<le> 0.7748"
  "0.8915 \<le> sin (164 * pi / 468)" "sin (164 * pi / 468) \<le> 0.8921"
proof -
  have a: "0.13425 \<le> 20 * pi / 468" "20 * pi / 468 \<le> 0.13427"
    using pi_gt_31415 pi_lt_31417 by simp_all
  have b: "0.88606 \<le> 132 * pi / 468" "132 * pi / 468 \<le> 0.88613"
    using pi_gt_31415 pi_lt_31417 by simp_all
  have c: "1.10086 \<le> 164 * pi / 468" "164 * pi / 468 \<le> 1.10094"
    using pi_gt_31415 pi_lt_31417 by simp_all
  show "0.1338 \<le> sin (20 * pi / 468)"
    using sin_between(1) [OF _ a] by (simp add: power_divide)
  show "sin (20 * pi / 468) \<le> 0.1343"
    using sin_between(2) [OF _ a] by (simp add: power_divide)
  show "0.7701 \<le> sin (132 * pi / 468)"
    using sin_between(1) [OF _ b] by (simp add: power_divide)
  show "sin (132 * pi / 468) \<le> 0.7748"
    using sin_between(2) [OF _ b] by (simp add: power_divide)
  show "0.8915 \<le> sin (164 * pi / 468)"
    using sin_between(1) [OF _ c] by (simp add: power_divide)
  show "sin (164 * pi / 468) \<le> 0.8921"
    using sin_between(2) [OF _ c] by (simp add: power_divide)
qed

lemma ratio_window:
  fixes a b k lo hi :: real
  assumes "0 \<le> a" "0 \<le> b"
    and "lo * (a + b + 0.001) < k * (a - b)" "k * (a - b) < hi * (a + b + 0.001)"
  shows "lo < (a - b) / (a + b + 0.001) * k" "(a - b) / (a + b + 0.001) * k < hi"
proof -
  have pos: "0 < a + b + 0.001" using assms(1,2) by simp
  have eq: "(a - b) / (a + b + 0.001) * k = (k * (a - b)) / (a + b + 0.001)" by simp
  show "lo < (a - b) / (a + b + 0.001) * k"
    unfolding eq using assms(3) pos by (simp only: pos_less_divide_eq)
  show "(a - b) / (a + b + 0.001) * k < hi"
    unfolding eq using assms(4) pos by (simp only: pos_divide_less_eq)
qed

lemma generated_x:
  "x (simulated_landmark w h 1) - x (simulated_landmark w h 33)
     = 0.3 * cos (2 * pi / 468) - 0.3 * cos (66 * pi / 468)"
  "x (simulated_landmark w h 263) - x (simulated_landmark w h 1)
     = - (0.24 * cos (58 * pi / 468)) - 0.3 * cos (2 * pi / 468)"
proof -
  have "cos (58 * pi / 468 + pi) = - cos (58 * pi / 468)" by (rule cos_periodic_pi)
  moreover have "58 * pi / 468 + pi = real 263 * 2 * pi / 468" by simp
  ultimately have c: "cos (real 263 * 2 * pi / 468) = - cos (58 * pi / 468)" by simp
  show "x (simulated_landmark w h 1) - x (simulated_landmark w h 33)
     = 0.3 * cos (2 * pi / 468) - 0.3 * cos (66 * pi / 468)"
    by (simp add: simulated_landmark_def Let_def)
  have "x (simulated_landmark w h 263) - x (simulated_landmark w h 1)
     = 0.24 * cos (real 263 * 2 * pi / 468) - 0.3 * cos (2 * pi / 468)"
    by (simp add: simulated_landmark_def Let_def)
  then show "x (simulated_landmark w h 263) - x (simulated_landmark w h 1)
     = - (0.24 * cos (58 * pi / 468)) - 0.3 * cos (2 * pi / 468)"
    unfolding c by simp
qed

lemma generated_y:
  "y (simulated_landmark w h 10) - y (simulated_landmark w h 168)
     = 0.4 * sin (20 * pi / 468) - 0.4 * sin (132 * pi / 468)"
  "y (simulated_landmark w h 152) - y (simulated_landmark w h 168)
     = 0.4 * sin (164 * pi / 468) - 0.4 * sin (132 * pi / 468)"
proof -
  have "sin (pi - 132 * pi / 468) = sin (132 * pi / 468)" by (rule sin_pi_minus)
  moreover have "pi - 132 * pi / 468 = real 168 * 2 * pi / 468" by simp
  ultimately have a: "sin (real 168 * 2 * pi / 468) = sin (132 * pi / 468)" by simp
  have "sin (pi - 164 * pi / 468) = sin (164 * pi / 468)" by (rule sin_pi_minus)
  moreover have "pi - 164 * pi / 468 = real 152 * 2 * pi / 468" by simp
  ultimately have b: "sin (real 152 * 2 * pi / 468) = sin (164 * pi / 468)" by simp
  have "y (simulated_landmark w h 10) - y (simulated_landmark w h 168)
     = 0.4 * sin (20 * pi / 468) - 0.4 * sin (real 168 * 2 * pi / 468)"
    by (simp add: simulated_landmark_def Let_def)
  then show "y (simulated_landmark w h 10) - y (simulated_landmark w h 168)
     = 0.4 * sin (20 * pi / 468) - 0.4 * sin (132 * pi / 468)"
    unfolding a by simp
  have "y (simulated_landmark w h 152) - y (simulated_landmark w h 168)
     = 0.4 * sin (real 152 * 2 * pi / 468) - 0.4 * sin (real 168 * 2 * pi / 468)"
    by (simp add: simulated_landmark_def Let_def)
  then show "y (simulated_landmark w h 152) - y (simulated_landmark w h 168)
     = 0.4 * sin (164 * pi / 468) - 0.4 * sin (132 * pi / 468)"
    unfolding a b by simp
qed

lemma generated_estimates:
  assumes "320 \<le> w" "240 \<le> h"
  shows "\<exists>a p. EstimateYaw (fst (processImageData self w h d)) = Some a \<and>
               EstimatePitch (fst (processImageData self w h d)) = Some p \<and>
               - 41 < a \<and> a < - 40 \<and> 20 < p \<and> p < 21"
proof -
  define lms where "lms = map (simulated_landmark w h) [0..<468]"
  have f: "fst (processImageData self w h d) = lms"
    using assms by (simp add: processImageData_def lms_def Let_def)
  have len: "468 \<le> length lms" by (simp add: lms_def)
  have n: "lms ! 1 = simulated_landmark w h 1" "lms ! 33 = simulated_landmark w h 33"
    "lms ! 263 = simulated_landmark w h 263" "lms ! 10 = simulated_landmark w h 10"
    "lms ! 168 = simulated_landmark w h 168" "lms ! 152 = simulated_landmark w h 152"
    by (simp_all add: lms_def)
  define l where "l = \<bar>x (lms ! 1) - x (lms ! 33)\<bar>"
  define r where "r = \<bar>x (lms ! 263) - x (lms ! 1)\<bar>"
  define u where "u = \<bar>y (lms ! 10) - y (lms ! 168)\<bar>"
  define v where "v = \<bar>y (lms ! 152) - y (lms ! 168)\<bar>"
  define c1 where "c1 = cos (2 * pi / 468)"
  define c33 where "c33 = cos (66 * pi / 468)"
  define c58 where "c58 = cos (58 * pi / 468)"
  define s10 where "s10 = sin (20 * pi / 468)"
  define s168 where "s168 = sin (132 * pi / 468)"
  define s152 where "s152 = sin (164 * pi / 468)"
  have c: "0.9999 \<le> c1" "c1 \<le> 1" "0.9018 \<le> c33" "c33 \<le> 0.9035" "0.9241 \<le> c58" "c58 \<le> 1"
    unfolding c1_def c33_def c58_def by (rule generated_cos)+
  have s: "0.1338 \<le> s10" "s10 \<le> 0.1343" "0.7701 \<le> s168" "s168 \<le> 0.7748"
    "0.8915 \<le> s152" "s152 \<le> 0.8921"
    unfolding s10_def s168_def s152_def by (rule generated_sin)+
  have "l = \<bar>0.3 * c1 - 0.3 * c33\<bar>"
    unfolding l_def n generated_x c1_def c33_def ..
  then have l: "l = 0.3 * c1 - 0.3 * c33" using c by (auto simp: abs_if)
  have "r = \<bar>- (0.24 * c58) - 0.3 * c1\<bar>"
    unfolding r_def n generated_x c1_def c58_def ..
  then have r: "r = 0.24 * c58 + 0.3 * c1" using c by (auto simp: abs_if)
  have "u = \<bar>0.4 * s10 - 0.4 * s168\<bar>"
    unfolding u_def n generated_y s10_def s168_def ..
  then have u: "u = 0.4 * s168 - 0.4 * s10" using s by (auto simp: abs_if)
  have "v = \<bar>0.4 * s152 - 0.4 * s168\<bar>"
    unfolding v_def n generated_y s152_def s168_def ..
  then have v: "v = 0.4 * s152 - 0.4 * s168" using s by (auto simp: abs_if)
  have l0: "0 \<le> l" and r0: "0 \<le> r" and u0: "0 \<le> u" and v0: "0 \<le> v"
    by (simp_all add: l_def r_def u_def v_def)
  have y1: "- 41 * (l + r + 0.001) < 45 * (l - r)" unfolding l r using c by simp
  have y2: "45 * (l - r) < - 40 * (l + r + 0.001)" unfolding l r using c by simp
  have p1: "20 * (u + v + 0.001) < 30 * (u - v)" unfolding u v using s by simp
  have p2: "30 * (u - v) < 21 * (u + v + 0.001)" unfolding u v using s by simp
  note yw = ratio_window [OF l0 r0 y1 y2]
  note pt = ratio_window [OF u0 v0 p1 p2]
  have a: "EstimateYaw lms = Some ((l - r) / (l + r + 0.001) * 45)"
    unfolding l_def r_def by (rule EstimateYaw_468 [OF len])
  have p: "EstimatePitch lms = Some ((u - v) / (u + v + 0.001) * 30)"
    unfolding u_def v_def by (rule EstimatePitch_468 [OF len])
  show ?thesis
    unfolding f a p using yw pt by simp
qed

lemma detectFace_generated:
  assumes "initialized self" "320 \<le> w" "240 \<le> h"
  shows "\<exists>r self'. detectFace self w h d = Some (r, self') \<and> detected r \<and>
           - 41 < yaw r \<and> yaw r < - 40 \<and> 20 < pitch r \<and> pitch r < 21"
proof -
  have wh: "100 \<le> w" "100 \<le> h" using assms(2,3) by simp_all
  obtain r lms a p c where df:
     "detectFace self w h d = Some (r, self\<lparr>last_landmarks := lms\<rparr>)"
     "lms = fst (processImageData self w h d)"
     "EstimateYaw lms = Some a" "EstimatePitch lms = Some p"
     "468 \<le> length lms \<longrightarrow>
        r = (FaceResult7 True (int (length lms))
              (wasm_reason (QualityGate 1 (max_yaw self) (max_pitch self) (Some (a, p))) a p)
              a p c (\<bar>a\<bar> \<le> max_yaw self \<and> \<bar>p\<bar> \<le> max_pitch self))\<lparr>landmarks := lms\<rparr>"
    using detectFace_cases [OF assms(1) wh, of d] by blast
  have len: "468 \<le> length lms"
    unfolding df(2) using length_processImageData [of self w h d] assms(2,3) by simp
  have b: "- 41 < a \<and> a < - 40 \<and> 20 < p \<and> p < 21"
    using generated_estimates [OF assms(2,3), of self d] df(3,4) unfolding df(2) [symmetric] by auto
  have "detected r \<and> yaw r = a \<and> pitch r = p"
    using df(5) len by (simp add: FaceResult7_def)
  then show ?thesis using df(1) b by blast
qed

subsection \<open>Fewer than 468 landmarks on the processor\<close>

lemma estimators_short:
  "length lms < 468 \<Longrightarrow>
   EstimateYaw lms = Some 0 \<and> EstimatePitch lms = Some 0 \<and> EstimateRoll lms = Some 0"
  by (simp add: EstimateYaw_def EstimatePitch_def EstimateRoll_def)

lemma detectFace_no_face:
  assumes "initialized self" "100 \<le> w" "100 \<le> h" "\<not> (320 \<le> w \<and> 240 \<le> h)"
  shows "detectFace self w h d =
           Some (FaceResult7 False 0 ''No face detected'' 0 0 0 False, self\<lparr>last_landmarks := []\<rparr>)"
  using assms by (auto simp: detectFace_def processImageData_def Let_def)


section \<open>The claims\<close>

text \<open>
  Claim C1. A landmark list with fewer than 468 points must give the zero pose and the
  no-face outcome, with every indexed read inside the container, at both call sites. The
  processor does so (\<open>estimators_short\<close>, \<open>detectFace_no_face\<close>, \<open>EstimateYaw_total\<close>). The
  calculator does not: \<^verbatim>\<open>Process\<close> checks only that the vector of landmark lists is not
  empty, and on a list of 100 landmarks its read \<^verbatim>\<open>landmarks.landmark(234)\<close> is outside the
  list, so the call has no defined result.
\<close>

theorem Process_short_landmarks:
  "Process (Open \<lparr>opt_max_captures = 5, opt_max_yaw_degrees = 15, opt_max_pitch_degrees = 10,
                   opt_padding = 0.2\<rparr>)
     \<lparr>IMAGE = Some \<lparr>cols = 640, rows = 480\<rparr>, LANDMARKS = Some [replicate 100 Landmark0],
      HasTag_STATUS = True\<rparr> = None"
  by (simp add: Process_def Open_def PoseAngles_def landmark_def word_sle_eq)



text \<open>
  Claim C3, as amended. On 468 landmarks the estimators of the processor are the
  ratio-based ones: yaw \<open>((leftDist - rightDist) / (leftDist + rightDist + 0.001)) * 45\<close>
  with the horizontal distances from the nose (1) to the eye corners 33 and 263, pitch the
  same ratio of the vertical distances of forehead (10) and chin (152) to the nose bridge
  (168) times 30, roll \<open>atan2 \<Delta>y \<Delta>x\<close> between the eye corners in degrees. When 33 and 263
  are symmetric about the nose in \<open>x\<close> the yaw is 0. When they have equal \<open>y\<close> the roll is 0
  if landmark 263 is not to the left of landmark 33, and 180 if it is.
\<close>

theorem ratio_estimator:
  "length lms = 468 \<longrightarrow>
     EstimateYaw lms = Some (ratio_yaw lms) \<and>
     EstimatePitch lms = Some (ratio_pitch lms) \<and>
     EstimateRoll lms = Some (eye_roll lms) \<and>
     (x (lms ! 1) - x (lms ! 33) = x (lms ! 263) - x (lms ! 1) \<longrightarrow> EstimateYaw lms = Some 0) \<and>
     (y (lms ! 33) = y (lms ! 263) \<and> x (lms ! 33) \<le> x (lms ! 263) \<longrightarrow> EstimateRoll lms = Some 0) \<and>
     (y (lms ! 33) = y (lms ! 263) \<and> x (lms ! 263) < x (lms ! 33) \<longrightarrow> EstimateRoll lms = Some 180)"
proof (intro impI)
  assume len: "length lms = 468"
  then have l: "468 \<le> length lms" by simp
  have 1: "EstimateYaw lms = Some (ratio_yaw lms)"
    by (simp add: EstimateYaw_468 [OF l] ratio_yaw_def Let_def)
  have 2: "EstimatePitch lms = Some (ratio_pitch lms)"
    by (simp add: EstimatePitch_468 [OF l] ratio_pitch_def Let_def)
  have 3: "EstimateRoll lms = Some (eye_roll lms)"
    by (simp add: EstimateRoll_468 [OF l] eye_roll_def)
  have 4: "EstimateYaw lms = Some 0" if "x (lms ! 1) - x (lms ! 33) = x (lms ! 263) - x (lms ! 1)"
    unfolding 1 ratio_yaw_def Let_def that by simp
  have 5: "EstimateRoll lms = Some 0" if "y (lms ! 33) = y (lms ! 263) \<and> x (lms ! 33) \<le> x (lms ! 263)"
    using that by (simp add: 3 eye_roll_def atan2_zero_right)
  have 6: "EstimateRoll lms = Some 180" if "y (lms ! 33) = y (lms ! 263) \<and> x (lms ! 263) < x (lms ! 33)"
    using that by (simp add: 3 eye_roll_def atan2_zero_left)
  show "EstimateYaw lms = Some (ratio_yaw lms) \<and>
     EstimatePitch lms = Some (ratio_pitch lms) \<and>
     EstimateRoll lms = Some (eye_roll lms) \<and>
     (x (lms ! 1) - x (lms ! 33) = x (lms ! 263) - x (lms ! 1) \<longrightarrow> EstimateYaw lms = Some 0) \<and>
     (y (lms ! 33) = y (lms ! 263) \<and> x (lms ! 33) \<le> x (lms ! 263) \<longrightarrow> EstimateRoll lms = Some 0) \<and>
     (y (lms ! 33) = y (lms ! 263) \<and> x (lms ! 263) < x (lms ! 33) \<longrightarrow> EstimateRoll lms = Some 180)"
    using 1 2 3 4 5 6 by blast
qed

text \<open>A symmetric, level pair of eye corners; and a level pair in mirrored order.\<close>

theorem ratio_estimator_witness:
  "EstimateYaw ((replicate 468 Landmark0)
      [1 := \<lparr>x = 0.5, y = 0.6, z = 0\<rparr>, 33 := \<lparr>x = 0.4, y = 0.5, z = 0\<rparr>,
       263 := \<lparr>x = 0.6, y = 0.5, z = 0\<rparr>]) = Some 0 \<and>
   EstimateRoll ((replicate 468 Landmark0)
      [1 := \<lparr>x = 0.5, y = 0.6, z = 0\<rparr>, 33 := \<lparr>x = 0.4, y = 0.5, z = 0\<rparr>,
       263 := \<lparr>x = 0.6, y = 0.5, z = 0\<rparr>]) = Some 0 \<and>
   EstimateRoll ((replicate 468 Landmark0)
      [33 := \<lparr>x = 0.6, y = 0.5, z = 0\<rparr>, 263 := \<lparr>x = 0.4, y = 0.5, z = 0\<rparr>]) = Some 180"
proof -
  let ?L = "(replicate 468 Landmark0)
      [1 := \<lparr>x = 0.5, y = 0.6, z = 0\<rparr>, 33 := \<lparr>x = 0.4, y = 0.5, z = 0\<rparr>,
       263 := \<lparr>x = 0.6, y = 0.5, z = 0\<rparr>]"
  let ?M = "(replicate 468 Landmark0)
      [33 := \<lparr>x = 0.6, y = 0.5, z = 0\<rparr>, 263 := \<lparr>x = 0.4, y = 0.5, z = 0\<rparr>]"
  have l: "length ?L = 468" "length ?M = 468" by simp_all
  have s: "x (?L ! 1) - x (?L ! 33) = x (?L ! 263) - x (?L ! 1)" by simp
  have r: "y (?L ! 33) = y (?L ! 263) \<and> x (?L ! 33) \<le> x (?L ! 263)" by simp
  have m: "y (?M ! 33) = y (?M ! 263) \<and> x (?M ! 263) < x (?M ! 33)" by simp
  show ?thesis
    using ratio_estimator [of ?L] ratio_estimator [of ?M] l s r m by blast
qed

text \<open>The claim as stated fails: with equal \<open>y\<close> and landmark 263 to the left of landmark
  33, the roll is 180 degrees, not 0.\<close>

theorem roll_equal_y_counterexample:
  "y (((replicate 468 Landmark0)
      [33 := \<lparr>x = 0.6, y = 0.5, z = 0\<rparr>, 263 := \<lparr>x = 0.4, y = 0.5, z = 0\<rparr>]) ! 33) =
   y (((replicate 468 Landmark0)
      [33 := \<lparr>x = 0.6, y = 0.5, z = 0\<rparr>, 263 := \<lparr>x = 0.4, y = 0.5, z = 0\<rparr>]) ! 263) \<and>
   EstimateRoll ((replicate 468 Landmark0)
      [33 := \<lparr>x = 0.6, y = 0.5, z = 0\<rparr>, 263 := \<lparr>x = 0.4, y = 0.5, z = 0\<rparr>]) = Some 180"
proof -
  let ?M = "(replicate 468 Landmark0)
      [33 := \<lparr>x = 0.6, y = 0.5, z = 0\<rparr>, 263 := \<lparr>x = 0.4, y = 0.5, z = 0\<rparr>]"
  have l: "468 \<le> length ?M" by simp
  show ?thesis
    unfolding EstimateRoll_468 [OF l] by (simp add: atan2_zero_left)
qed

text \<open>
  Claim C4. Once the yaw check has passed, \<^verbatim>\<open>Process\<close> of the calculator rejects for pitch
  exactly when \<open>\<bar>pitch\<bar> > max_pitch * 2\<close>, and otherwise captures; so with
  \<open>max_pitch = 10\<close> a pitch of magnitude 18 is captured. \<^verbatim>\<open>detectFace\<close> of the processor
  reports good quality for a detected face exactly when \<open>\<bar>yaw\<bar> \<le> max_yaw\<close> and
  \<open>\<bar>pitch\<bar> \<le> max_pitch\<close>, with no doubling.
\<close>

theorem pitch_threshold_policies:
  "(\<not> calc_max_captures calc \<le>s current_count calc \<and> IMAGE cc = Some img \<and>
    LANDMARKS cc = Some (lms # rest) \<and> PoseAngles lms = Some (a, p) \<and> \<bar>a\<bar> \<le> calc_max_yaw calc
    \<longrightarrow> Process calc cc =
          (if \<bar>p\<bar> > calc_max_pitch calc * 2
           then Some (calc, SendStatus cc ''Face tilted up/down too much (Pitch)'' no_output)
           else Some (calc\<lparr>current_count := current_count calc + 1\<rparr>,
                      CropAndSend calc img lms (SendStatus cc ''Captured!'' no_output))) \<and>
        (calc_max_pitch calc = 10 \<and> \<bar>p\<bar> = 18
           \<longrightarrow> Process calc cc =
                 Some (calc\<lparr>current_count := current_count calc + 1\<rparr>,
                       CropAndSend calc img lms (SendStatus cc ''Captured!'' no_output)))) \<and>
   (detectFace self w h d = Some (r, self') \<and> detected r
    \<longrightarrow> (quality_good r \<longleftrightarrow> \<bar>yaw r\<bar> \<le> max_yaw self \<and> \<bar>pitch r\<bar> \<le> max_pitch self))"
proof (intro conjI impI)
  assume h: "\<not> calc_max_captures calc \<le>s current_count calc \<and> IMAGE cc = Some img \<and>
    LANDMARKS cc = Some (lms # rest) \<and> PoseAngles lms = Some (a, p) \<and> \<bar>a\<bar> \<le> calc_max_yaw calc"
  then have pr: "Process calc cc =
     (if \<bar>a\<bar> > calc_max_yaw calc
      then Some (calc, SendStatus cc ''Face turned too much (Yaw)'' no_output)
      else if \<bar>p\<bar> > calc_max_pitch calc * 2
      then Some (calc, SendStatus cc ''Face tilted up/down too much (Pitch)'' no_output)
      else Some (calc\<lparr>current_count := current_count calc + 1\<rparr>,
                 CropAndSend calc img lms (SendStatus cc ''Captured!'' no_output)))"
    by (intro Process_pose) auto
  show e: "Process calc cc =
          (if \<bar>p\<bar> > calc_max_pitch calc * 2
           then Some (calc, SendStatus cc ''Face tilted up/down too much (Pitch)'' no_output)
           else Some (calc\<lparr>current_count := current_count calc + 1\<rparr>,
                      CropAndSend calc img lms (SendStatus cc ''Captured!'' no_output)))"
    using h by (simp add: pr)
  assume "calc_max_pitch calc = 10 \<and> \<bar>p\<bar> = 18"
  then show "Process calc cc =
                 Some (calc\<lparr>current_count := current_count calc + 1\<rparr>,
                       CropAndSend calc img lms (SendStatus cc ''Captured!'' no_output))"
    by (simp add: e)
next
  assume h: "detectFace self w h d = Some (r, self') \<and> detected r"
  then show "quality_good r \<longleftrightarrow> \<bar>yaw r\<bar> \<le> max_yaw self \<and> \<bar>pitch r\<bar> \<le> max_pitch self"
    by (intro detectFace_quality) auto
qed

text \<open>A face whose depth-based pitch is exactly 18 degrees, on a calculator with
  \<open>max_pitch = 10\<close>, is captured. A generated frame on a processor with \<open>max_yaw = 45\<close> and
  the default \<open>max_pitch = 15\<close> has a pitch between 20 and 21 degrees: it is below the doubled
  limit and the processor still rejects it.\<close>

theorem pitch_threshold_policies_witness:
  "\<forall>d.
   Process (Open \<lparr>opt_max_captures = 5, opt_max_yaw_degrees = 15, opt_max_pitch_degrees = 10,
                   opt_padding = 0.2\<rparr>)
     \<lparr>IMAGE = Some \<lparr>cols = 1000, rows = 1000\<rparr>,
      LANDMARKS = Some [(replicate 468 Landmark0)[1 := \<lparr>x = 0, y = tan (pi / 10), z = 1\<rparr>]],
      HasTag_STATUS = True\<rparr>
     = Some ((Open \<lparr>opt_max_captures = 5, opt_max_yaw_degrees = 15, opt_max_pitch_degrees = 10,
                     opt_padding = 0.2\<rparr>)\<lparr>current_count := 1\<rparr>,
             CropAndSend (Open \<lparr>opt_max_captures = 5, opt_max_yaw_degrees = 15,
                                 opt_max_pitch_degrees = 10, opt_padding = 0.2\<rparr>)
               \<lparr>cols = 1000, rows = 1000\<rparr>
               ((replicate 468 Landmark0)[1 := \<lparr>x = 0, y = tan (pi / 10), z = 1\<rparr>])
               \<lparr>STATUS = [''Captured!''], CROPPED_FACE = []\<rparr>) \<and>
   (\<exists>r self'.
      detectFace (setMaxYaw (snd (initialize SmartFaceProcessor0)) 45) 640 480 d
        = Some (r, self') \<and>
      detected r \<and> \<not> quality_good r \<and> \<bar>yaw r\<bar> \<le> 45 \<and> 15 < \<bar>pitch r\<bar> \<and> \<bar>pitch r\<bar> \<le> 15 * 2)"
proof
  fix d :: val
  let ?C = "Open \<lparr>opt_max_captures = 5, opt_max_yaw_degrees = 15, opt_max_pitch_degrees = 10,
                   opt_padding = 0.2\<rparr>"
  let ?L = "(replicate 468 Landmark0)[1 := \<lparr>x = 0, y = tan (pi / 10), z = 1\<rparr>]"
  let ?I = "\<lparr>cols = 1000, rows = 1000\<rparr>"
  let ?K = "\<lparr>IMAGE = Some ?I, LANDMARKS = Some [?L], HasTag_STATUS = True\<rparr>"
  let ?S = "setMaxYaw (snd (initialize SmartFaceProcessor0)) 45"
  have f: "initialized ?S" "max_yaw ?S = 45" "max_pitch ?S = 15"
    by (simp_all add: setMaxYaw_def initialize_def SmartFaceProcessor0_def)
  obtain r self' where df: "detectFace ?S 640 480 d = Some (r, self')" "detected r"
    and g: "- 41 < yaw r" "yaw r < - 40" "20 < pitch r" "pitch r < 21"
    using detectFace_generated [of ?S 640 480 d] f(1) by auto
  note t = pitch_threshold_policies [of ?C ?K ?I ?L "[]" 0 18 ?S 640 480 d r self']
  have h1: "\<not> calc_max_captures ?C \<le>s current_count ?C \<and> IMAGE ?K = Some ?I \<and>
    LANDMARKS ?K = Some (?L # []) \<and> PoseAngles ?L = Some (0, 18) \<and> \<bar>0\<bar> \<le> calc_max_yaw ?C"
    using PoseAngles_pitch_18 by (simp add: Open_def word_sle_eq)
  have h2: "calc_max_pitch ?C = 10 \<and> \<bar>18 :: real\<bar> = 18" by (simp add: Open_def)
  have h3: "detectFace ?S 640 480 d = Some (r, self') \<and> detected r" using df by simp
  have a: "Process ?C ?K = Some (?C\<lparr>current_count := current_count ?C + 1\<rparr>,
                       CropAndSend ?C ?I ?L (SendStatus ?K ''Captured!'' no_output))"
    using t [THEN conjunct1, rule_format, OF h1, THEN conjunct2, rule_format, OF h2] .
  have b: "quality_good r \<longleftrightarrow> \<bar>yaw r\<bar> \<le> max_yaw ?S \<and> \<bar>pitch r\<bar> \<le> max_pitch ?S"
    using t [THEN conjunct2, rule_format, OF h3] .
  have c: "current_count ?C + 1 = 1" "SendStatus ?K ''Captured!'' no_output = \<lparr>STATUS = [''Captured!''], CROPPED_FACE = []\<rparr>"
    by (simp_all add: Open_def SendStatus_def no_output_def)
  have a': "Process ?C ?K = Some (?C\<lparr>current_count := 1\<rparr>,
                       CropAndSend ?C ?I ?L \<lparr>STATUS = [''Captured!''], CROPPED_FACE = []\<rparr>)"
    using a unfolding c .
  have "\<not> quality_good r \<and> \<bar>yaw r\<bar> \<le> 45 \<and> 15 < \<bar>pitch r\<bar> \<and> \<bar>pitch r\<bar> \<le> 15 * 2"
    using b g f by simp
  then show "Process ?C ?K = Some (?C\<lparr>current_count := 1\<rparr>,
             CropAndSend ?C ?I ?L \<lparr>STATUS = [''Captured!''], CROPPED_FACE = []\<rparr>) \<and>
   (\<exists>r self'. detectFace ?S 640 480 d = Some (r, self') \<and>
      detected r \<and> \<not> quality_good r \<and> \<bar>yaw r\<bar> \<le> 45 \<and> 15 < \<bar>pitch r\<bar> \<and> \<bar>pitch r\<bar> \<le> 15 * 2)"
    using a' df by blast
qed

text \<open>
  Claim C5, as amended. At the calculator, a processed frame (limit not reached, both
  packets present, landmark list long enough to be read) with STATUS connected gets
  exactly one status, the reason of \<open>QualityGate\<close> with multiplier 2: no-face first, then
  yaw, then pitch, with the four strings of the specification. At the processor, on an
  initialized processor and an image of at least 100 by 100, the checks come in the same
  order with multiplier 1, and the message is the one \<open>wasm_reason\<close> gives: the no-face
  string is the same, the two rejections carry the truncated angle, and an accepted frame
  reads \<open>Good quality face detected!\<close>.
\<close>

theorem gate_order_and_reasons:
  "(\<not> calc_max_captures calc \<le>s current_count calc \<and> IMAGE cc = Some img \<and>
    LANDMARKS cc = Some multi \<and> HasTag_STATUS cc \<and> (multi \<noteq> [] \<longrightarrow> 455 \<le> length (multi ! 0))
    \<longrightarrow> (\<exists>calc' out. Process calc cc = Some (calc', out) \<and>
          STATUS out = [reason (QualityGate 2 (calc_max_yaw calc) (calc_max_pitch calc)
                                  (if multi = [] then None else PoseAngles (multi ! 0)))])) \<and>
   (initialized self \<and> 100 \<le> w \<and> 100 \<le> h
    \<longrightarrow> (\<exists>r self'. detectFace self w h d = Some (r, self') \<and>
          message r = wasm_reason (QualityGate 1 (max_yaw self) (max_pitch self)
                                     (if detected r then Some (yaw r, pitch r) else None))
                        (yaw r) (pitch r)))"
proof (intro conjI impI)
  assume h: "\<not> calc_max_captures calc \<le>s current_count calc \<and> IMAGE cc = Some img \<and>
    LANDMARKS cc = Some multi \<and> HasTag_STATUS cc \<and> (multi \<noteq> [] \<longrightarrow> 455 \<le> length (multi ! 0))"
  show "\<exists>calc' out. Process calc cc = Some (calc', out) \<and>
          STATUS out = [reason (QualityGate 2 (calc_max_yaw calc) (calc_max_pitch calc)
                                  (if multi = [] then None else PoseAngles (multi ! 0)))]"
  proof (cases multi)
    case Nil
    then have "Process calc cc = Some (calc, SendStatus cc ''No face detected'' no_output)"
      using h by (intro Process_no_face) auto
    then show ?thesis using h Nil by (simp add: SendStatus_def no_output_def QualityGate_def)
  next
    case (Cons lms rest)
    then have len: "455 \<le> length lms" using h by simp
    note pa = PoseAngles_455 [OF len]
    have pr: "Process calc cc =
     (if \<bar>depth_yaw lms\<bar> > calc_max_yaw calc
      then Some (calc, SendStatus cc ''Face turned too much (Yaw)'' no_output)
      else if \<bar>depth_pitch lms\<bar> > calc_max_pitch calc * 2
      then Some (calc, SendStatus cc ''Face tilted up/down too much (Pitch)'' no_output)
      else Some (calc\<lparr>current_count := current_count calc + 1\<rparr>,
                 CropAndSend calc img lms (SendStatus cc ''Captured!'' no_output)))"
      using h Cons by (intro Process_pose [OF _ _ _ pa]) auto
    have st: "STATUS (CropAndSend calc img lms (SendStatus cc ''Captured!'' no_output)) = [''Captured!'']"
      using h by (simp add: CropAndSend_def SendStatus_def no_output_def split: option.splits)
    show ?thesis
      using h Cons st
      by (simp add: pr pa QualityGate_def SendStatus_def no_output_def)
  qed
next
  assume h: "initialized self \<and> 100 \<le> w \<and> 100 \<le> h"
  then obtain r lms a p c where df:
     "detectFace self w h d = Some (r, self\<lparr>last_landmarks := lms\<rparr>)"
     "length lms < 468 \<longrightarrow> r = FaceResult7 False 0 ''No face detected'' 0 0 0 False"
     "468 \<le> length lms \<longrightarrow>
        r = (FaceResult7 True (int (length lms))
              (wasm_reason (QualityGate 1 (max_yaw self) (max_pitch self) (Some (a, p))) a p)
              a p c (\<bar>a\<bar> \<le> max_yaw self \<and> \<bar>p\<bar> \<le> max_pitch self))\<lparr>landmarks := lms\<rparr>"
    using detectFace_cases [of self w h d] by blast
  have "message r = wasm_reason (QualityGate 1 (max_yaw self) (max_pitch self)
                                     (if detected r then Some (yaw r, pitch r) else None))
                        (yaw r) (pitch r)"
  proof (cases "length lms < 468")
    case True
    then show ?thesis using df(2) by (simp add: FaceResult7_def QualityGate_def)
  next
    case False
    then show ?thesis using df(3) by (simp add: FaceResult7_def)
  qed
  then show "\<exists>r self'. detectFace self w h d = Some (r, self') \<and>
          message r = wasm_reason (QualityGate 1 (max_yaw self) (max_pitch self)
                                     (if detected r then Some (yaw r, pitch r) else None))
                        (yaw r) (pitch r)"
    using df(1) by blast
qed

text \<open>An accepted frame at each call site.\<close>

theorem gate_order_and_reasons_witness:
  "\<forall>d.
   (\<exists>calc' out.
      Process (Open \<lparr>opt_max_captures = 5, opt_max_yaw_degrees = 15, opt_max_pitch_degrees = 10,
                      opt_padding = 0.2\<rparr>)
        \<lparr>IMAGE = Some \<lparr>cols = 1000, rows = 1000\<rparr>, LANDMARKS = Some [replicate 468 Landmark0],
         HasTag_STATUS = True\<rparr> = Some (calc', out) \<and>
      STATUS out = [''Captured!'']) \<and>
   (\<exists>r self'.
      detectFace (setMaxPitch (setMaxYaw (snd (initialize SmartFaceProcessor0)) 45) 30) 640 480 d
        = Some (r, self') \<and>
      message r = ''Good quality face detected!'')"
proof
  fix d :: val
  let ?C = "Open \<lparr>opt_max_captures = 5, opt_max_yaw_degrees = 15, opt_max_pitch_degrees = 10,
                      opt_padding = 0.2\<rparr>"
  let ?K = "\<lparr>IMAGE = Some \<lparr>cols = 1000, rows = 1000\<rparr>, LANDMARKS = Some [replicate 468 Landmark0],
         HasTag_STATUS = True\<rparr>"
  let ?S = "setMaxPitch (setMaxYaw (snd (initialize SmartFaceProcessor0)) 45) 30"
  have f: "initialized ?S" "max_yaw ?S = 45" "max_pitch ?S = 30"
    by (simp_all add: setMaxPitch_def setMaxYaw_def initialize_def SmartFaceProcessor0_def)
  note g = gate_order_and_reasons [of ?C ?K "\<lparr>cols = 1000, rows = 1000\<rparr>"
      "[replicate 468 Landmark0]" ?S 640 480 d]
  have h1: "\<not> calc_max_captures ?C \<le>s current_count ?C \<and> IMAGE ?K = Some \<lparr>cols = 1000, rows = 1000\<rparr> \<and>
    LANDMARKS ?K = Some [replicate 468 Landmark0] \<and> HasTag_STATUS ?K \<and>
    ([replicate 468 Landmark0] \<noteq> [] \<longrightarrow> 455 \<le> length ([replicate 468 Landmark0] ! 0))"
    by (simp add: Open_def word_sle_eq)
  have h2: "initialized ?S \<and> (100::int) \<le> 640 \<and> (100::int) \<le> 480" using f by simp
  have r1: "reason (QualityGate 2 (calc_max_yaw ?C) (calc_max_pitch ?C)
              (if [replicate 468 Landmark0] = [] then None
               else PoseAngles ([replicate 468 Landmark0] ! 0))) = ''Captured!''"
    by (simp add: PoseAngles_zero QualityGate_def Open_def)
  have a: "\<exists>calc' out. Process ?C ?K = Some (calc', out) \<and> STATUS out = [''Captured!'']"
    using g [THEN conjunct1, rule_format, OF h1] unfolding r1 .
  obtain r self' where b: "detectFace ?S 640 480 d = Some (r, self')"
     "message r = wasm_reason (QualityGate 1 (max_yaw ?S) (max_pitch ?S)
                                     (if detected r then Some (yaw r, pitch r) else None))
                        (yaw r) (pitch r)"
    using g [THEN conjunct2, rule_format, OF h2] by blast
  have "message r = ''Good quality face detected!''"
    using detectFace_good [of ?S 640 480 d] f b(1) by auto
  then show "(\<exists>calc' out. Process ?C ?K = Some (calc', out) \<and> STATUS out = [''Captured!'']) \<and>
   (\<exists>r self'. detectFace ?S 640 480 d = Some (r, self') \<and>
      message r = ''Good quality face detected!'')"
    using a b(1) by blast
qed

text \<open>The claim as stated fails at the processor: the message of an accepted frame is
  none of the four strings.\<close>

theorem wasm_reason_counterexample:
  "map_option (message \<circ> fst)
     (detectFace (setMaxPitch (setMaxYaw (snd (initialize SmartFaceProcessor0)) 45) 30)
        640 480 undefined)
     = Some ''Good quality face detected!'' \<and>
   ''Good quality face detected!'' \<notin>
     {''No face detected'', ''Face turned too much (Yaw)'',
      ''Face tilted up/down too much (Pitch)'', ''Captured!''}"
proof -
  let ?S = "setMaxPitch (setMaxYaw (snd (initialize SmartFaceProcessor0)) 45) 30"
  have f: "initialized ?S" "max_yaw ?S = 45" "max_pitch ?S = 30"
    by (simp_all add: setMaxPitch_def setMaxYaw_def initialize_def SmartFaceProcessor0_def)
  obtain r self' where "detectFace ?S 640 480 undefined = Some (r, self')"
     "message r = ''Good quality face detected!''"
    using detectFace_good [of ?S 640 480 undefined] f by auto
  then show ?thesis by simp
qed

text \<open>
  Claim C6. The rectangle of \<^verbatim>\<open>CropAndSend\<close>, computed on binary32 floats. For a landmark
  list that is not empty (in particular one of 468 landmarks) whose \<open>x\<close> and \<open>y\<close> are
  normalized to \<open>[0, 1]\<close>, an image of at most 65536 by 65536 pixels and a padding
  between 0 and 100, every conversion of \<^verbatim>\<open>CropAndSend\<close> is in range and its rectangle is
  the one of \<open>RegionCropper\<close>: minimum and maximum of \<open>x\<close> and \<open>y\<close> over all landmarks, pixel
  box by truncation, padding by \<open>1 + padding\<close> about the centre, top-left clamped to
  \<open>\<ge> (0, 0)\<close>, extents clamped to the image, and a crop only when both extents are
  positive. For landmarks spanning the floats \<open>[0.2, 0.2]\<close> to \<open>[0.6, 0.7]\<close> in an image of
  1000 by 1000 with the float padding 0.2 the rectangle is \<open>(160, 150, 480, 600)\<close>. A
  rectangle that is extracted lies inside the image; where the rectangle is defined,
  \<^verbatim>\<open>CropAndSend\<close> adds no status packet, and adds a crop exactly when there is a rectangle.
\<close>

theorem CropAndSend_region:
  "(lms \<noteq> [] \<and> (\<forall>lm\<in>set lms. 0 \<le> x lm \<and> x lm \<le> 1 \<and> 0 \<le> y lm \<and> y lm \<le> 1) \<and>
    0 \<le> cols img \<and> cols img \<le> 65536 \<and> 0 \<le> rows img \<and> rows img \<le> 65536 \<and>
    0 \<le> padding \<and> padding \<le> 100 \<longrightarrow>
      crop_rect padding img lms = Some (RegionCropper padding (cols img) (rows img) lms) \<and>
      (Min (x ` set lms) = round32 0.2 \<and> Max (x ` set lms) = round32 0.6 \<and>
       Min (y ` set lms) = round32 0.2 \<and> Max (y ` set lms) = round32 0.7 \<and>
       cols img = 1000 \<and> rows img = 1000 \<and> padding = round32 0.2
         \<longrightarrow> crop_rect padding img lms = Some (Some (160, 150, 480, 600)))) \<and>
   (crop_rect padding img lms = Some (Some (rx, ry, rw, rh)) \<longrightarrow>
      0 \<le> rx \<and> 0 \<le> ry \<and> 0 < rw \<and> 0 < rh \<and> rx + rw \<le> cols img \<and> ry + rh \<le> rows img) \<and>
   (crop_rect (calc_padding self) img lms = Some r \<longrightarrow>
      STATUS (CropAndSend self img lms out) = STATUS out \<and>
      CROPPED_FACE (CropAndSend self img lms out) =
        (case r of Some roi \<Rightarrow> CROPPED_FACE out @ [roi] | None \<Rightarrow> CROPPED_FACE out))"
proof (intro conjI impI)
  assume h: "lms \<noteq> [] \<and> (\<forall>lm\<in>set lms. 0 \<le> x lm \<and> x lm \<le> 1 \<and> 0 \<le> y lm \<and> y lm \<le> 1) \<and>
    0 \<le> cols img \<and> cols img \<le> 65536 \<and> 0 \<le> rows img \<and> rows img \<le> 65536 \<and>
    0 \<le> padding \<and> padding \<le> 100"
  then show eq: "crop_rect padding img lms = Some (RegionCropper padding (cols img) (rows img) lms)"
    by (intro crop_rect_RegionCropper) auto
  assume e: "Min (x ` set lms) = round32 0.2 \<and> Max (x ` set lms) = round32 0.6 \<and>
       Min (y ` set lms) = round32 0.2 \<and> Max (y ` set lms) = round32 0.7 \<and>
       cols img = 1000 \<and> rows img = 1000 \<and> padding = round32 0.2"
  then have r: "RegionCropper (round32 0.2) 1000 1000 lms = Some (160, 150, 480, 600)"
    by (intro crop_example) auto
  from e have p: "padding = round32 0.2" "cols img = 1000" "rows img = 1000" by blast+
  have "RegionCropper padding (cols img) (rows img) lms = Some (160, 150, 480, 600)"
    unfolding p by (rule r)
  then show "crop_rect padding img lms = Some (Some (160, 150, 480, 600))"
    unfolding eq by simp
next
  assume "crop_rect padding img lms = Some (Some (rx, ry, rw, rh))"
  from crop_rect_inside [OF this]
  show "0 \<le> rx" "0 \<le> ry" "0 < rw" "0 < rh" "rx + rw \<le> cols img" "ry + rh \<le> rows img"
    by auto
next
  assume d: "crop_rect (calc_padding self) img lms = Some r"
  show "STATUS (CropAndSend self img lms out) = STATUS out"
    by (simp add: CropAndSend_def d split: option.splits)
  show "CROPPED_FACE (CropAndSend self img lms out) =
        (case r of Some roi \<Rightarrow> CROPPED_FACE out @ [roi] | None \<Rightarrow> CROPPED_FACE out)"
    by (simp add: CropAndSend_def d split: option.splits)
qed

text \<open>468 landmarks, all of them floats, that span the box of the example, in the
  calculator opened with the float padding 0.2.\<close>

theorem CropAndSend_region_witness:
  "length (\<lparr>x = round32 0.2, y = round32 0.2, z = 0\<rparr> # \<lparr>x = round32 0.6, y = round32 0.7, z = 0\<rparr> #
           replicate 466 \<lparr>x = 1 / 2, y = 1 / 2, z = 0\<rparr>) = 468 \<and>
   crop_rect (round32 0.2) \<lparr>cols = 1000, rows = 1000\<rparr>
     (\<lparr>x = round32 0.2, y = round32 0.2, z = 0\<rparr> # \<lparr>x = round32 0.6, y = round32 0.7, z = 0\<rparr> #
      replicate 466 \<lparr>x = 1 / 2, y = 1 / 2, z = 0\<rparr>) = Some (Some (160, 150, 480, 600)) \<and>
   (0::int) \<le> 160 \<and> (0::int) \<le> 150 \<and> (160::int) + 480 \<le> 1000 \<and> (150::int) + 600 \<le> 1000 \<and>
   CropAndSend
     (Open \<lparr>opt_max_captures = 5, opt_max_yaw_degrees = 15, opt_max_pitch_degrees = 10,
            opt_padding = round32 0.2\<rparr>)
     \<lparr>cols = 1000, rows = 1000\<rparr>
     (\<lparr>x = round32 0.2, y = round32 0.2, z = 0\<rparr> # \<lparr>x = round32 0.6, y = round32 0.7, z = 0\<rparr> #
      replicate 466 \<lparr>x = 1 / 2, y = 1 / 2, z = 0\<rparr>)
     \<lparr>STATUS = [''Captured!''], CROPPED_FACE = []\<rparr>
     = \<lparr>STATUS = [''Captured!''], CROPPED_FACE = [(160, 150, 480, 600)]\<rparr>"
proof -
  let ?lms = "\<lparr>x = round32 0.2, y = round32 0.2, z = 0\<rparr> # \<lparr>x = round32 0.6, y = round32 0.7, z = 0\<rparr> #
           replicate 466 \<lparr>x = 1 / 2, y = 1 / 2, z = 0\<rparr>"
  let ?img = "\<lparr>cols = 1000, rows = 1000\<rparr>"
  let ?C = "Open \<lparr>opt_max_captures = 5, opt_max_yaw_degrees = 15, opt_max_pitch_degrees = 10,
            opt_padding = round32 0.2\<rparr>"
  let ?out = "\<lparr>STATUS = [''Captured!''], CROPPED_FACE = []\<rparr>"
  have s: "set ?lms = {\<lparr>x = round32 0.2, y = round32 0.2, z = 0\<rparr>,
                       \<lparr>x = round32 0.6, y = round32 0.7, z = 0\<rparr>, \<lparr>x = 1 / 2, y = 1 / 2, z = 0\<rparr>}"
    by simp
  have p: "0 \<le> round32 0.2 \<and> round32 0.2 \<le> 100" unfolding float_literals by simp
  have h1: "?lms \<noteq> [] \<and> (\<forall>lm\<in>set ?lms. 0 \<le> x lm \<and> x lm \<le> 1 \<and> 0 \<le> y lm \<and> y lm \<le> 1) \<and>
    0 \<le> cols ?img \<and> cols ?img \<le> 65536 \<and> 0 \<le> rows ?img \<and> rows ?img \<le> 65536 \<and>
    0 \<le> round32 0.2 \<and> round32 0.2 \<le> 100"
    unfolding s float_literals by simp
  have h2: "Min (x ` set ?lms) = round32 0.2 \<and> Max (x ` set ?lms) = round32 0.6 \<and>
       Min (y ` set ?lms) = round32 0.2 \<and> Max (y ` set ?lms) = round32 0.7 \<and>
       cols ?img = 1000 \<and> rows ?img = 1000 \<and> round32 0.2 = round32 0.2"
    unfolding s float_literals by simp
  note t = CropAndSend_region [of ?lms ?img "round32 0.2" 160 150 480 600 ?C "Some (160, 150, 480, 600)" ?out]
  have c: "crop_rect (round32 0.2) ?img ?lms = Some (Some (160, 150, 480, 600))"
    using t [THEN conjunct1, rule_format, OF h1, THEN conjunct2, rule_format, OF h2] .
  have i: "0 \<le> (160::int) \<and> 0 \<le> (150::int) \<and> (0::int) < 480 \<and> (0::int) < 600 \<and>
        (160::int) + 480 \<le> cols ?img \<and> (150::int) + 600 \<le> rows ?img"
    using t [THEN conjunct2, THEN conjunct1, rule_format, OF c] .
  have cp: "calc_padding ?C = round32 0.2" by (simp add: Open_def)
  have c': "crop_rect (calc_padding ?C) ?img ?lms = Some (Some (160, 150, 480, 600))"
    unfolding cp by (rule c)
  have o: "STATUS (CropAndSend ?C ?img ?lms ?out) = STATUS ?out \<and>
      CROPPED_FACE (CropAndSend ?C ?img ?lms ?out) =
        (case Some (160, 150, 480, 600) of Some roi \<Rightarrow> CROPPED_FACE ?out @ [roi]
         | None \<Rightarrow> CROPPED_FACE ?out)"
    using t [THEN conjunct2, THEN conjunct2, rule_format, OF c'] .
  have "CropAndSend ?C ?img ?lms ?out = \<lparr>STATUS = [''Captured!''], CROPPED_FACE = [(160, 150, 480, 600)]\<rparr>"
    using o by (cases "CropAndSend ?C ?img ?lms ?out") simp
  then show ?thesis using c i by simp
qed

text \<open>The claim as stated, for every landmark set and every padding, fails. The loop
  starts its minimum at 1.0 and its maximum at 0.0: for 468 landmarks to the left of the
  image (\<open>x\<close> from -0.5 to -0.25) the rectangle of \<^verbatim>\<open>CropAndSend\<close> is 500 pixels wide, the one
  of the minimum and maximum over the landmarks 250. The arithmetic is exact on these
  values. With a padding of 10000000 the padded width 500 * 10000001 is outside the
  range of \<^verbatim>\<open>int\<close>, and the conversion has no defined result.\<close>

theorem crop_outside_unit_counterexample:
  "length (\<lparr>x = - (1 / 2), y = 1 / 4, z = 0\<rparr> # \<lparr>x = - (1 / 4), y = 3 / 4, z = 0\<rparr> #
           replicate 466 \<lparr>x = - (1 / 2), y = 1 / 4, z = 0\<rparr>) = 468 \<and>
   crop_rect 0 \<lparr>cols = 1000, rows = 1000\<rparr>
     (\<lparr>x = - (1 / 2), y = 1 / 4, z = 0\<rparr> # \<lparr>x = - (1 / 4), y = 3 / 4, z = 0\<rparr> #
      replicate 466 \<lparr>x = - (1 / 2), y = 1 / 4, z = 0\<rparr>) = Some (Some (0, 250, 500, 500)) \<and>
   RegionCropper 0 1000 1000
     (\<lparr>x = - (1 / 2), y = 1 / 4, z = 0\<rparr> # \<lparr>x = - (1 / 4), y = 3 / 4, z = 0\<rparr> #
      replicate 466 \<lparr>x = - (1 / 2), y = 1 / 4, z = 0\<rparr>) = Some (0, 250, 250, 500) \<and>
   crop_rect 10000000 \<lparr>cols = 1000, rows = 1000\<rparr>
     (\<lparr>x = 1 / 4, y = 1 / 4, z = 0\<rparr> # \<lparr>x = 3 / 4, y = 3 / 4, z = 0\<rparr> #
      replicate 466 \<lparr>x = 1 / 2, y = 1 / 2, z = 0\<rparr>) = None"
  using outside_crop outside_RegionCropper crop_rect_overflow by simp

text \<open>
  Claim C7. With a limit \<open>max_captures \<ge> 0\<close> and a count of 0, \<open>max_captures + 1\<close> calls
  on frames the gate accepts give exactly \<open>max_captures\<close> increments: on the processor
  the calls return true \<open>max_captures\<close> times and then false; on the calculator the
  count ends at \<open>max_captures\<close> and the last call adds no packet. A call made when the
  count has reached the limit returns at once: \<^verbatim>\<open>captureFrame\<close> returns false and leaves
  the processor as it was (the landmark generator did not run), and \<^verbatim>\<open>Process\<close> returns
  with no output for every context, also one whose landmark list is too short to be
  read.
\<close>

theorem capture_limit:
  "(capture_count self = 0 \<and> 0 \<le> sint (max_captures self) \<and>
    length frames = nat (sint (max_captures self)) + 1 \<and>
    (\<forall>f\<in>set frames. wasm_gate_accepts self f)
    \<longrightarrow> (\<exists>self'. captureFrames self frames =
                 Some (replicate (nat (sint (max_captures self))) True @ [False], self') \<and>
               capture_count self' = max_captures self)) \<and>
   (current_count calc = 0 \<and> 0 \<le> sint (calc_max_captures calc) \<and>
    length ccs = nat (sint (calc_max_captures calc)) + 1 \<and>
    (\<forall>cc\<in>set ccs. calc_gate_accepts calc cc)
    \<longrightarrow> (\<exists>outs calc'. Processes calc ccs = Some (outs, calc') \<and>
               length outs = length ccs \<and> last outs = no_output \<and>
               current_count calc' = calc_max_captures calc)) \<and>
   (max_captures self0 \<le>s capture_count self0
    \<longrightarrow> captureFrame self0 width height imageData = Some (False, self0)) \<and>
   (calc_max_captures calc0 \<le>s current_count calc0
    \<longrightarrow> Process calc0 cc0 = Some (calc0, no_output))"
proof (intro conjI impI)
  assume h: "capture_count self = 0 \<and> 0 \<le> sint (max_captures self) \<and>
    length frames = nat (sint (max_captures self)) + 1 \<and>
    (\<forall>f\<in>set frames. wasm_gate_accepts self f)"
  define m where "m = nat (sint (max_captures self))"
  have fr: "frames = butlast frames @ [last frames]" "length (butlast frames) = m"
    using h by (auto simp: m_def intro: append_butlast_last_id [symmetric])
  have acc: "\<forall>f\<in>set (butlast frames). wasm_gate_accepts self f"
    using h by (auto dest: in_set_butlastD)
  have bound: "sint (capture_count self) + int (length (butlast frames)) \<le> sint (max_captures self)"
    using h fr(2) by (simp add: m_def)
  obtain s1 where s1: "captureFrames self (butlast frames) = Some (replicate m True, s1)"
      "sint (capture_count s1) = sint (capture_count self) + int m"
      "max_captures s1 = max_captures self"
    using captureFrames_accepting [OF acc bound] fr(2) by auto
  have "sint (capture_count s1) = sint (max_captures self)"
    using s1(2) h by (simp add: m_def)
  then have full: "capture_count s1 = max_captures self" by (rule signed_word_eqI)
  obtain w h0 d where lf: "last frames = (w, h0, d)" by (cases "last frames")
  have stop: "captureFrame s1 w h0 d = Some (False, s1)"
    using full s1(3) by (simp add: captureFrame_def)
  have "captureFrames self (butlast frames @ [last frames]) = Some (replicate m True @ [False], s1)"
    by (simp add: captureFrames_append s1(1) lf stop)
  then show "\<exists>self'. captureFrames self frames =
                 Some (replicate (nat (sint (max_captures self))) True @ [False], self') \<and>
               capture_count self' = max_captures self"
    using fr(1) full by (auto simp: m_def)
next
  assume h: "current_count calc = 0 \<and> 0 \<le> sint (calc_max_captures calc) \<and>
    length ccs = nat (sint (calc_max_captures calc)) + 1 \<and>
    (\<forall>cc\<in>set ccs. calc_gate_accepts calc cc)"
  define m where "m = nat (sint (calc_max_captures calc))"
  have fr: "ccs = butlast ccs @ [last ccs]" "length (butlast ccs) = m"
    using h by (auto simp: m_def intro: append_butlast_last_id [symmetric])
  have acc: "\<forall>c\<in>set (butlast ccs). calc_gate_accepts calc c"
    using h by (auto dest: in_set_butlastD)
  have bound: "sint (current_count calc) + int (length (butlast ccs)) \<le> sint (calc_max_captures calc)"
    using h fr(2) by (simp add: m_def)
  obtain outs s1 where s1: "Processes calc (butlast ccs) = Some (outs, s1)" "length outs = m"
      "sint (current_count s1) = sint (current_count calc) + int m"
      "calc_max_captures s1 = calc_max_captures calc"
    using Processes_accepting [OF acc bound] fr(2) by auto
  have "sint (current_count s1) = sint (calc_max_captures calc)"
    using s1(3) h by (simp add: m_def)
  then have full: "current_count s1 = calc_max_captures calc" by (rule signed_word_eqI)
  have stop: "Process s1 (last ccs) = Some (s1, no_output)"
    using full s1(4) by (simp add: Process_limit)
  have "Processes calc (butlast ccs @ [last ccs]) = Some (outs @ [no_output], s1)"
    by (simp add: Processes_append s1(1) stop)
  then have "Processes calc ccs = Some (outs @ [no_output], s1)" using fr(1) by simp
  then show "\<exists>outs calc'. Processes calc ccs = Some (outs, calc') \<and>
               length outs = length ccs \<and> last outs = no_output \<and>
               current_count calc' = calc_max_captures calc"
    using full s1(2) h by (simp add: m_def)
next
  assume "max_captures self0 \<le>s capture_count self0"
  then show "captureFrame self0 width height imageData = Some (False, self0)"
    by (simp add: captureFrame_def)
next
  assume "calc_max_captures calc0 \<le>s current_count calc0"
  then show "Process calc0 cc0 = Some (calc0, no_output)" by (rule Process_limit)
qed

text \<open>A limit of 2 and three accepted frames at each call site; a limit of 0 for the
  immediate return, on a context whose landmark list is empty.\<close>

theorem capture_limit_witness:
  "\<forall>d.
    (\<exists>self'. captureFrames
        (setMaxCaptures (setMaxPitch (setMaxYaw (snd (initialize SmartFaceProcessor0)) 45) 30) 2)
        [(640, 480, d), (640, 480, d), (640, 480, d)] = Some ([True, True, False], self') \<and>
      capture_count self' = 2) \<and>
    (\<exists>outs calc'. Processes
        (Open \<lparr>opt_max_captures = 2, opt_max_yaw_degrees = 15, opt_max_pitch_degrees = 10,
               opt_padding = 0.2\<rparr>)
        (replicate 3 \<lparr>IMAGE = Some \<lparr>cols = 1000, rows = 1000\<rparr>,
                       LANDMARKS = Some [replicate 468 Landmark0], HasTag_STATUS = True\<rparr>)
          = Some (outs, calc') \<and>
      length outs = 3 \<and> last outs = no_output \<and> current_count calc' = 2) \<and>
    captureFrame (resetCaptures (setMaxCaptures SmartFaceProcessor0 0)) 640 480 d
      = Some (False, resetCaptures (setMaxCaptures SmartFaceProcessor0 0)) \<and>
    Process (Open \<lparr>opt_max_captures = 0, opt_max_yaw_degrees = 15, opt_max_pitch_degrees = 10,
                    opt_padding = 0.2\<rparr>)
      \<lparr>IMAGE = Some \<lparr>cols = 1000, rows = 1000\<rparr>, LANDMARKS = Some [[]], HasTag_STATUS = True\<rparr>
      = Some (Open \<lparr>opt_max_captures = 0, opt_max_yaw_degrees = 15, opt_max_pitch_degrees = 10,
                    opt_padding = 0.2\<rparr>, no_output)"
proof
  fix d :: val
  let ?W = "setMaxCaptures (setMaxPitch (setMaxYaw (snd (initialize SmartFaceProcessor0)) 45) 30) 2"
  let ?fs = "[(640, 480, d), (640, 480, d), (640 :: int, 480 :: int, d)]"
  let ?C = "Open \<lparr>opt_max_captures = 2, opt_max_yaw_degrees = 15, opt_max_pitch_degrees = 10,
               opt_padding = 0.2\<rparr>"
  let ?K = "\<lparr>IMAGE = Some \<lparr>cols = 1000, rows = 1000\<rparr>,
            LANDMARKS = Some [replicate 468 Landmark0], HasTag_STATUS = True\<rparr>"
  let ?Wz = "resetCaptures (setMaxCaptures SmartFaceProcessor0 0)"
  let ?Cz = "Open \<lparr>opt_max_captures = 0, opt_max_yaw_degrees = 15, opt_max_pitch_degrees = 10,
                    opt_padding = 0.2\<rparr>"
  let ?Kz = "\<lparr>IMAGE = Some \<lparr>cols = 1000, rows = 1000\<rparr>, LANDMARKS = Some [[]], HasTag_STATUS = True\<rparr>"
  have w: "initialized ?W" "max_yaw ?W = 45" "max_pitch ?W = 30" "capture_count ?W = 0"
          "max_captures ?W = 2"
    by (simp_all add: setMaxCaptures_def setMaxPitch_def setMaxYaw_def initialize_def
          SmartFaceProcessor0_def)
  have "wasm_gate_accepts ?W (640, 480, d)"
    using detectFace_good [of ?W 640 480 d] w by (auto simp: wasm_gate_accepts_def)
  then have h1: "capture_count ?W = 0 \<and> 0 \<le> sint (max_captures ?W) \<and>
      length ?fs = nat (sint (max_captures ?W)) + 1 \<and> (\<forall>f\<in>set ?fs. wasm_gate_accepts ?W f)"
    using w by simp
  have "calc_gate_accepts ?C ?K"
    by (simp add: calc_gate_accepts_def PoseAngles_zero Open_def)
  then have h2: "current_count ?C = 0 \<and> 0 \<le> sint (calc_max_captures ?C) \<and>
      length (replicate 3 ?K) = nat (sint (calc_max_captures ?C)) + 1 \<and>
      (\<forall>cc\<in>set (replicate 3 ?K). calc_gate_accepts ?C cc)"
    by (simp add: Open_def)
  have h3: "max_captures ?Wz \<le>s capture_count ?Wz"
    by (simp add: resetCaptures_def setMaxCaptures_def SmartFaceProcessor0_def)
  have h4: "calc_max_captures ?Cz \<le>s current_count ?Cz"
    by (simp add: Open_def)
  have m: "nat (sint (max_captures ?W)) = 2" "calc_max_captures ?C = 2"
          "nat (sint (calc_max_captures ?C)) = 2"
    using w by (simp_all add: Open_def)
  show "(\<exists>self'. captureFrames ?W ?fs = Some ([True, True, False], self') \<and>
      capture_count self' = 2) \<and>
    (\<exists>outs calc'. Processes ?C (replicate 3 ?K) = Some (outs, calc') \<and>
      length outs = 3 \<and> last outs = no_output \<and> current_count calc' = 2) \<and>
    captureFrame ?Wz 640 480 d = Some (False, ?Wz) \<and>
    Process ?Cz ?Kz = Some (?Cz, no_output)"
    using capture_limit [of ?W ?fs ?C "replicate 3 ?K" ?Wz 640 480 d ?Cz ?Kz] h1 h2 h3 h4
    unfolding m w(5) by (simp add: numeral_2_eq_2)
qed

text \<open>
  Claim C8, as amended. The count starts at 0 on both call sites and is never negative
  in a reachable state of the processor. A call changes it by \<open>+1\<close> (an accepted
  \<^verbatim>\<open>captureFrame\<close>), sets it to 0 (\<^verbatim>\<open>initialize\<close>, \<^verbatim>\<open>resetCaptures\<close>) or leaves it as it was.
  The bound \<open>0 \<le> count \<le> max_captures\<close> is preserved by every call of the processor
  except \<^verbatim>\<open>setMaxCaptures(n)\<close> with \<open>n\<close> below the count, and holds in every reachable state
  of the calculator whose configured \<open>max_captures\<close> is not negative.
\<close>

theorem capture_count_invariant:
  "capture_count SmartFaceProcessor0 = 0 \<and> current_count (Open options0) = 0 \<and>
   (wasm_reachable self0 \<longrightarrow> 0 \<le> sint (capture_count self0)) \<and>
   (wasm_step self c = Some self' \<longrightarrow>
      (capture_count self' = capture_count self \<or>
       ((\<exists>w h d. c = CaptureFrame w h d) \<and> sint (capture_count self') = sint (capture_count self) + 1) \<or>
       ((c = Initialize \<or> c = ResetCaptures) \<and> capture_count self' = 0)) \<and>
      (0 \<le> sint (capture_count self) \<and> capture_count self \<le>s max_captures self \<and>
       (\<forall>n. c = SetMaxCaptures n \<longrightarrow> capture_count self \<le>s n)
         \<longrightarrow> 0 \<le> sint (capture_count self') \<and> capture_count self' \<le>s max_captures self')) \<and>
   (0 \<le> sint (opt_max_captures options) \<and> calc_reachable options calc
      \<longrightarrow> 0 \<le> sint (current_count calc) \<and> current_count calc \<le>s calc_max_captures calc) \<and>
   (Process calc1 cc = Some (calc2, out)
      \<longrightarrow> current_count calc2 = current_count calc1 \<or>
          sint (current_count calc2) = sint (current_count calc1) + 1)"
proof (intro conjI impI)
  show "capture_count SmartFaceProcessor0 = 0" by (simp add: SmartFaceProcessor0_def)
  show "current_count (Open options0) = 0" by (simp add: Open_def)
  show "0 \<le> sint (capture_count self0)" if "wasm_reachable self0"
    using that by (rule wasm_reachable_nonneg)
  show "capture_count self' = capture_count self \<or>
       ((\<exists>w h d. c = CaptureFrame w h d) \<and> sint (capture_count self') = sint (capture_count self) + 1) \<or>
       ((c = Initialize \<or> c = ResetCaptures) \<and> capture_count self' = 0)"
    if "wasm_step self c = Some self'"
    using wasm_step_count [OF that] by blast
  show "0 \<le> sint (capture_count self')"
    if st: "wasm_step self c = Some self'"
      and h: "0 \<le> sint (capture_count self) \<and> capture_count self \<le>s max_captures self \<and>
       (\<forall>n. c = SetMaxCaptures n \<longrightarrow> capture_count self \<le>s n)"
    using wasm_step_count [OF st] h by auto
  show "capture_count self' \<le>s max_captures self'"
    if st: "wasm_step self c = Some self'"
      and h: "0 \<le> sint (capture_count self) \<and> capture_count self \<le>s max_captures self \<and>
       (\<forall>n. c = SetMaxCaptures n \<longrightarrow> capture_count self \<le>s n)"
  proof -
    from wasm_step_max [OF st] show ?thesis
    proof
      assume m: "max_captures self' = max_captures self"
      from wasm_step_count [OF st] h m show ?thesis
        by (auto simp: word_sle_eq word_sless_alt)
    next
      assume c: "c = SetMaxCaptures (max_captures self')"
      then have e: "setMaxCaptures self (max_captures self') = self'"
        using st by simp
      have "capture_count (setMaxCaptures self (max_captures self')) = capture_count self"
        by (simp add: setMaxCaptures_def)
      then have "capture_count self' = capture_count self"
        by (simp add: e)
      then show ?thesis using h c by auto
    qed
  qed
  show "0 \<le> sint (current_count calc)" "current_count calc \<le>s calc_max_captures calc"
    if "0 \<le> sint (opt_max_captures options) \<and> calc_reachable options calc"
    using calc_reachable_inv [of options calc] that by auto
  show "current_count calc2 = current_count calc1 \<or>
          sint (current_count calc2) = sint (current_count calc1) + 1"
    if "Process calc1 cc = Some (calc2, out)"
    using Process_state [OF that] sint_succ [of "current_count calc1" "calc_max_captures calc1"]
    by auto
qed

text \<open>Instances: the processor after \<^verbatim>\<open>initialize\<close>; \<^verbatim>\<open>setMaxCaptures(7)\<close> on the new
  processor; the calculator after one accepted frame with a limit of 2.\<close>

theorem capture_count_invariant_witness:
  "wasm_reachable (snd (initialize SmartFaceProcessor0)) \<and>
   0 \<le> sint (capture_count (snd (initialize SmartFaceProcessor0))) \<and>
   wasm_step SmartFaceProcessor0 (SetMaxCaptures 7) = Some (setMaxCaptures SmartFaceProcessor0 7) \<and>
   capture_count (setMaxCaptures SmartFaceProcessor0 7) \<le>s max_captures (setMaxCaptures SmartFaceProcessor0 7) \<and>
   calc_reachable
     \<lparr>opt_max_captures = 2, opt_max_yaw_degrees = 15, opt_max_pitch_degrees = 10, opt_padding = 0.2\<rparr>
     ((Open \<lparr>opt_max_captures = 2, opt_max_yaw_degrees = 15, opt_max_pitch_degrees = 10,
             opt_padding = 0.2\<rparr>)\<lparr>current_count := 1\<rparr>) \<and>
   current_count ((Open \<lparr>opt_max_captures = 2, opt_max_yaw_degrees = 15, opt_max_pitch_degrees = 10,
             opt_padding = 0.2\<rparr>)\<lparr>current_count := 1\<rparr>) \<le>s 2 \<and>
   Process (Open \<lparr>opt_max_captures = 2, opt_max_yaw_degrees = 15, opt_max_pitch_degrees = 10,
             opt_padding = 0.2\<rparr>)
     \<lparr>IMAGE = Some \<lparr>cols = 1000, rows = 1000\<rparr>, LANDMARKS = Some [replicate 468 Landmark0],
      HasTag_STATUS = True\<rparr>
     = Some ((Open \<lparr>opt_max_captures = 2, opt_max_yaw_degrees = 15, opt_max_pitch_degrees = 10,
             opt_padding = 0.2\<rparr>)\<lparr>current_count := 1\<rparr>,
             \<lparr>STATUS = [''Captured!''], CROPPED_FACE = []\<rparr>)"
proof -
  let ?o = "\<lparr>opt_max_captures = 2, opt_max_yaw_degrees = 15, opt_max_pitch_degrees = 10,
            opt_padding = 0.2\<rparr>"
  let ?K = "\<lparr>IMAGE = Some \<lparr>cols = 1000, rows = 1000\<rparr>, LANDMARKS = Some [replicate 468 Landmark0],
      HasTag_STATUS = True\<rparr>"
  let ?c1 = "(Open ?o)\<lparr>current_count := 1\<rparr>"
  let ?out = "\<lparr>STATUS = [''Captured!''], CROPPED_FACE = []\<rparr>"
  let ?s1 = "snd (initialize SmartFaceProcessor0)"
  let ?s7 = "setMaxCaptures SmartFaceProcessor0 7"
  have r1: "wasm_reachable ?s1"
    by (rule wasm_reachable.called [OF wasm_reachable.constructed, of Initialize]) simp
  have st: "wasm_step SmartFaceProcessor0 (SetMaxCaptures 7) = Some ?s7" by simp
  have pre: "0 \<le> sint (capture_count SmartFaceProcessor0) \<and>
      capture_count SmartFaceProcessor0 \<le>s max_captures SmartFaceProcessor0 \<and>
      (\<forall>n. SetMaxCaptures 7 = SetMaxCaptures n \<longrightarrow> capture_count SmartFaceProcessor0 \<le>s n)"
    by (simp add: SmartFaceProcessor0_def word_sle_eq)
  have p: "Process (Open ?o) ?K = Some (?c1, ?out)"
    using Process_zero_face [of "Open ?o" "\<lparr>cols = 1000, rows = 1000\<rparr>"]
    by (simp add: Open_def word_sless_alt)
  have r2: "calc_reachable ?o ?c1"
    by (rule calc_reachable.processed [OF calc_reachable.opened p])
  have o: "0 \<le> sint (opt_max_captures ?o) \<and> calc_reachable ?o ?c1" using r2 by simp
  note inv = capture_count_invariant [of ?o ?s1 SmartFaceProcessor0 "SetMaxCaptures 7" ?s7 ?o ?c1
      "Open ?o" ?K ?c1 ?out]
  note i3 = inv [THEN conjunct2, THEN conjunct2, THEN conjunct1, rule_format]
  note i4 = inv [THEN conjunct2, THEN conjunct2, THEN conjunct2, THEN conjunct1, rule_format]
  note i5 = inv [THEN conjunct2, THEN conjunct2, THEN conjunct2, THEN conjunct2, THEN conjunct1,
      rule_format]
  have a: "current_count ?c1 \<le>s calc_max_captures ?c1" using i5 [OF o] by (rule conjunct2)
  have b: "calc_max_captures ?c1 = 2" by (simp add: Open_def)
  have c: "0 \<le> sint (capture_count ?s1)" using r1 by (rule i3)
  have d: "capture_count ?s7 \<le>s max_captures ?s7"
    using i4 [OF st, THEN conjunct2] pre by blast
  show ?thesis using a [unfolded b] c d r1 st r2 p by (intro conjI)
qed

text \<open>The claim as stated fails: after one capture, \<^verbatim>\<open>setMaxCaptures(0)\<close> leaves the
  count at 1 above the limit 0.\<close>

theorem capture_count_bound_counterexample:
  "map_option counters
     (wasm_run SmartFaceProcessor0
        [Initialize, SetMaxYaw 45, SetMaxPitch 30, CaptureFrame 640 480 undefined, SetMaxCaptures 0])
     = Some (1, 0) \<and>
   wasm_reachable (the (wasm_run SmartFaceProcessor0
        [Initialize, SetMaxYaw 45, SetMaxPitch 30, CaptureFrame 640 480 undefined, SetMaxCaptures 0]))"
proof -
  let ?S = "setMaxPitch (setMaxYaw (snd (initialize SmartFaceProcessor0)) 45) 30"
  let ?cs = "[Initialize, SetMaxYaw 45, SetMaxPitch 30, CaptureFrame 640 480 undefined, SetMaxCaptures 0]"
  have f: "initialized ?S" "max_yaw ?S = 45" "max_pitch ?S = 30" "capture_count ?S = 0" "max_captures ?S = 5"
    by (simp_all add: setMaxPitch_def setMaxYaw_def initialize_def SmartFaceProcessor0_def)
  have acc: "wasm_gate_accepts ?S (640, 480, undefined)"
    using detectFace_good [of ?S 640 480 undefined] f by (auto simp: wasm_gate_accepts_def)
  have lt: "capture_count ?S <s max_captures ?S" by (simp add: f word_sless_alt)
  obtain s1 where s1: "captureFrame ?S 640 480 undefined = Some (True, s1)"
      "sint (capture_count s1) = sint (capture_count ?S) + 1"
    using captureFrame_accept [OF lt acc] by blast
  have run: "wasm_run SmartFaceProcessor0 ?cs = Some (setMaxCaptures s1 0)"
    by (simp add: s1(1))
  have c: "counters (setMaxCaptures s1 0) = (1, 0)"
    using s1(2) f(4) by (simp add: counters_def setMaxCaptures_def)
  have "wasm_reachable (setMaxCaptures s1 0)"
    using wasm_reachable.constructed run by (rule wasm_run_reachable)
  then show ?thesis unfolding run using c by simp
qed

text \<open>
  Claim C9. \<^verbatim>\<open>getLandmark\<close> of the processor is total on every 32-bit index: it never
  reads outside the stored landmarks, and for an index that is negative or not below
  the number of stored landmarks it returns the default landmark \<open>x = y = z = 0\<close>. An
  index inside the stored landmarks (fewer than \<open>2 ^ 31\<close> of them) returns the landmark
  stored there.
\<close>

theorem getLandmark_total:
  "getLandmark self index \<noteq> None \<and>
   (sint index < 0 \<or> int (length (last_landmarks self)) \<le> sint index
      \<longrightarrow> getLandmark self index = Some \<lparr>x = 0, y = 0, z = 0\<rparr>) \<and>
   (0 \<le> sint index \<and> sint index < int (length (last_landmarks self)) \<and>
    length (last_landmarks self) < 2 ^ 31
      \<longrightarrow> getLandmark self index = Some (last_landmarks self ! nat (sint index)))"
proof -
  let ?n = "length (last_landmarks self)"
  have le: "sint (word_of_nat ?n :: int32) \<le> int ?n" by (rule sint_of_nat_le)
  have eq: "?n < 2 ^ 31 \<Longrightarrow> sint (word_of_nat ?n :: int32) = int ?n" by (rule sint_of_nat_small)
  show ?thesis
    using le eq by (auto simp: getLandmark_def landmark_def Landmark0_def)
qed

text \<open>The indices 468 and 467 on a processor that stores the 468 generated landmarks.\<close>

theorem getLandmark_total_witness:
  "\<forall>d. int (length (last_landmarks (snd (processImageData SmartFaceProcessor0 640 480 d)))) \<le> sint (468 :: int32)
     \<and> getLandmark (snd (processImageData SmartFaceProcessor0 640 480 d)) 468 = Some \<lparr>x = 0, y = 0, z = 0\<rparr>
     \<and> getLandmark (snd (processImageData SmartFaceProcessor0 640 480 d)) 467
          = Some (simulated_landmark 640 480 467)"
proof
  fix d :: val
  let ?s = "snd (processImageData SmartFaceProcessor0 640 480 d)"
  have l: "last_landmarks ?s = map (simulated_landmark 640 480) [0..<468]"
    by (simp add: processImageData_def Let_def)
  have len: "int (length (last_landmarks ?s)) \<le> sint (468 :: int32)"
    by (simp add: l)
  have rng: "0 \<le> sint (467 :: int32) \<and> sint (467 :: int32) < int (length (last_landmarks ?s)) \<and>
    length (last_landmarks ?s) < 2 ^ 31"
    by (simp add: l)
  have "last_landmarks ?s ! nat (sint (467 :: int32)) = simulated_landmark 640 480 467"
    unfolding l by simp
  then show "int (length (last_landmarks ?s)) \<le> sint (468 :: int32)
     \<and> getLandmark ?s 468 = Some \<lparr>x = 0, y = 0, z = 0\<rparr>
     \<and> getLandmark ?s 467 = Some (simulated_landmark 640 480 467)"
    using len rng getLandmark_total [of ?s 468] getLandmark_total [of ?s 467] by auto
qed

text \<open>
  Claim C10. \<^verbatim>\<open>captureFrame\<close> always returns. When it returns false the capture count
  is unchanged; when it returns true the capture count is larger by exactly one (no
  wrap-around) and the fields \<open>max_yaw\<close>, \<open>max_pitch\<close>, \<open>max_captures\<close> and
  \<open>initialized\<close> are unchanged.
\<close>

theorem captureFrame_frame:
  "\<exists>b self'. captureFrame self w h d = Some (b, self') \<and>
     (\<not> b \<longrightarrow> capture_count self' = capture_count self) \<and>
     (b \<longrightarrow> sint (capture_count self') = sint (capture_count self) + 1 \<and>
            max_yaw self' = max_yaw self \<and> max_pitch self' = max_pitch self \<and>
            max_captures self' = max_captures self \<and> initialized self' = initialized self)"
  using captureFrame_effect [of self w h d] by blast

text \<open>A frame of 640 by 480 on an initialized processor whose limits are 45 and 30
  degrees: the call returns true and the count goes from 0 to 1.\<close>

theorem captureFrame_frame_witness:
  "\<forall>d. \<exists>self'.
     captureFrame (setMaxPitch (setMaxYaw (snd (initialize SmartFaceProcessor0)) 45) 30) 640 480 d
       = Some (True, self') \<and>
     sint (capture_count self') = 1 \<and> max_yaw self' = 45 \<and> max_pitch self' = 30 \<and>
     max_captures self' = 5 \<and> initialized self'"
proof
  fix d
  let ?S = "setMaxPitch (setMaxYaw (snd (initialize SmartFaceProcessor0)) 45) 30"
  have f: "initialized ?S" "max_yaw ?S = 45" "max_pitch ?S = 30" "capture_count ?S = 0" "max_captures ?S = 5"
    by (simp_all add: setMaxPitch_def setMaxYaw_def initialize_def SmartFaceProcessor0_def)
  obtain r s1 where df: "detectFace ?S 640 480 d = Some (r, s1)" "detected r" "quality_good r"
    using detectFace_good [of ?S 640 480 d] f by auto
  obtain b self' where c: "captureFrame ?S 640 480 d = Some (b, self')"
     "b \<longrightarrow> sint (capture_count self') = sint (capture_count ?S) + 1 \<and>
            max_yaw self' = max_yaw ?S \<and> max_pitch self' = max_pitch ?S \<and>
            max_captures self' = max_captures ?S \<and> initialized self' = initialized ?S"
    using captureFrame_frame [of ?S 640 480 d] by blast
  have "b" using c(1) df f(4,5) by (simp add: captureFrame_def word_sle_eq)
  then show "\<exists>self'. captureFrame ?S 640 480 d = Some (True, self') \<and>
     sint (capture_count self') = 1 \<and> max_yaw self' = 45 \<and> max_pitch self' = 30 \<and>
     max_captures self' = 5 \<and> initialized self'"
    using c f by auto
qed

end
